theory Spec2Isabelle
  imports Main "HOL-Library.Sublist"
begin

section \<open>Text primitives of the host language\<close>

text \<open>
  A JavaScript string is a sequence of 16-bit code units. The model uses \<open>string\<close>
  (\<open>char list\<close>, 8-bit characters) and reads a character as the code unit of the same
  number, so it covers the texts whose code units lie below 256. On that range
  \<open>length\<close>, \<open>slice\<close>, \<open>includes\<close>, \<open>trim\<close>, \<open>split\<close> and \<open>toLowerCase\<close> are as
  below. Where a code unit beyond that range matters, in the keyword search, the search
  is given a second time on lists of 16-bit code units.
\<close>

definition toLowerCase_char :: "char \<Rightarrow> char" where
  "toLowerCase_char c =
     (let n = (of_char c :: nat)
      in if (65 \<le> n \<and> n \<le> 90) \<or> (192 \<le> n \<and> n \<le> 222 \<and> n \<noteq> 215)
         then char_of (n + 32) else c)"

definition toLowerCase :: "string \<Rightarrow> string" where
  "toLowerCase s = map toLowerCase_char s"

text \<open>The white space of \<open>\s\<close> and of \<open>trim\<close>, below 256: TAB, LF, VT, FF, CR, SP, NBSP.\<close>

definition is_ws :: "char \<Rightarrow> bool" where
  "is_ws c = ((of_char c :: nat) \<in> {9, 10, 11, 12, 13, 32, 160})"

text \<open>\<open>s.trim()\<close>: white space is dropped at both ends.\<close>

definition trim :: "string \<Rightarrow> string" where
  "trim s = rev (dropWhile is_ws (rev (dropWhile is_ws s)))"

text \<open>
  \<open>s.split(/\s+/)\<close>: the string is cut at every maximal run of white space. A run at
  the start leaves an empty first piece, a run at the end an empty last piece, and the
  empty string gives one empty piece. \<open>insep\<close> says that the scan is inside a run,
  \<open>w\<close> is the piece collected so far.
\<close>

fun split_go :: "bool \<Rightarrow> string \<Rightarrow> string \<Rightarrow> string list" where
  "split_go insep w [] = [w]"
| "split_go insep w (c # cs) =
     (if is_ws c then (if insep then split_go True [] cs else w # split_go True [] cs)
      else split_go False (w @ [c]) cs)"

definition split_ws :: "string \<Rightarrow> string list" where
  "split_ws s = split_go False [] s"

text \<open>\<open>hay.includes(needle)\<close>: the needle occurs at some position of the text.\<close>

fun str_includes :: "'a list \<Rightarrow> 'a list \<Rightarrow> bool" where
  "str_includes [] needle = (needle = [])"
| "str_includes (c # cs) needle = (prefix needle (c # cs) \<or> str_includes cs needle)"

text \<open>\<open>xs.join(sep)\<close> on an array of strings.\<close>

fun join :: "'a list \<Rightarrow> 'a list list \<Rightarrow> 'a list" where
  "join sep [] = []"
| "join sep [x] = x"
| "join sep (x # y # ys) = x @ sep @ join sep (y # ys)"

text \<open>\<open>xs.filter(Boolean)\<close> on optional strings: \<open>undefined\<close> and the empty string go.\<close>

fun filter_Boolean :: "'a list option list \<Rightarrow> 'a list list" where
  "filter_Boolean [] = []"
| "filter_Boolean (None # fs) = filter_Boolean fs"
| "filter_Boolean (Some s # fs) = (if s = [] then filter_Boolean fs else s # filter_Boolean fs)"

section \<open>Knowledge store (knowledge.ts)\<close>

text \<open>
  The price is a JavaScript number; its type \<open>'n\<close> is left open, and the two
  renderings the code uses (\<open>toFixed(2)\<close> and string interpolation) are taken as
  functions of the host. \<open>specs\<close> is the optional object, as the list of entries
  that \<open>Object.entries\<close> yields.
\<close>

record 'n Product =
  p_id :: string
  name :: string
  category :: string
  description :: string
  price :: 'n
  inStock :: bool
  specs :: "(string \<times> string) list option"

record FAQ =
  f_id :: string
  question :: string
  answer :: string
  faq_keywords :: "string list"

record Policy =
  pol_id :: string
  topic :: string
  title :: string
  content :: string

text \<open>The module-level collections \<open>products\<close>, \<open>faqs\<close>, \<open>policies\<close>.\<close>

record 'n KnowledgeBase =
  products :: "'n Product list"
  faqs :: "FAQ list"
  policies :: "Policy list"

text \<open>
  \<open>searchByKeyword\<close> reads five optional fields of an item, in this order:
  \<open>name\<close>, \<open>question\<close>, \<open>title\<close>, \<open>description\<close>, \<open>keywords?.join(" ")\<close>. A
  field that the item's type does not have reads as \<open>undefined\<close> (\<open>None\<close>).
\<close>

definition product_fields :: "'n Product \<Rightarrow> string option list" where
  "product_fields p = [Some (name p), None, None, Some (description p), None]"

definition faq_fields :: "FAQ \<Rightarrow> string option list" where
  "faq_fields f = [None, Some (question f), None, None, Some (join '' '' (faq_keywords f))]"

definition policy_fields :: "Policy \<Rightarrow> string option list" where
  "policy_fields p = [None, None, Some (title p), None, None]"

definition searchableText :: "string option list \<Rightarrow> string" where
  "searchableText fs = toLowerCase (join '' '' (filter_Boolean fs))"

definition searchByKeyword :: "('a \<Rightarrow> string option list) \<Rightarrow> 'a list \<Rightarrow> string \<Rightarrow> 'a list" where
  "searchByKeyword fieldsOf items query =
     (let queryLower = toLowerCase query;
          queryWords = split_ws queryLower
      in filter (\<lambda>item.
           list_ex (\<lambda>word. if length word < 2 then False
                           else str_includes (searchableText (fieldsOf item)) word) queryWords)
         items)"

definition searchProducts :: "'n KnowledgeBase \<Rightarrow> string \<Rightarrow> 'n Product list" where
  "searchProducts kb query =
     (if trim query = [] then []
      else take 10 (searchByKeyword product_fields (products kb) query))"

definition searchFAQs :: "'n KnowledgeBase \<Rightarrow> string \<Rightarrow> FAQ list" where
  "searchFAQs kb query =
     (if trim query = [] then []
      else take 5 (searchByKeyword faq_fields (faqs kb) query))"

definition lookupPolicy :: "'n KnowledgeBase \<Rightarrow> string \<Rightarrow> Policy option" where
  "lookupPolicy kb tpc =
     (if trim tpc = [] then None
      else let topicLower = toLowerCase tpc
           in case find (\<lambda>p. toLowerCase (topic p) = topicLower
                             \<or> str_includes (toLowerCase (title p)) topicLower) (policies kb) of
                Some directMatch \<Rightarrow> Some directMatch
              | None \<Rightarrow>
                  (case searchByKeyword policy_fields (policies kb) tpc of
                     [] \<Rightarrow> None
                   | r # _ \<Rightarrow> Some r))"

text \<open>
  The copy inlined in the Express entry point (api/chat.ts) reads four fields only:
  \<open>name\<close>, \<open>question\<close>, \<open>title\<close>, \<open>description\<close>. Its records for products
  and policies have no keywords, so \<open>searchProducts\<close> and \<open>lookupPolicy\<close> are the
  functions above; only the FAQ search differs.
\<close>

definition faq_fields_express :: "FAQ \<Rightarrow> string option list" where
  "faq_fields_express f = [None, Some (question f), None, None]"

definition searchFAQs_express :: "'n KnowledgeBase \<Rightarrow> string \<Rightarrow> FAQ list" where
  "searchFAQs_express kb query =
     (if trim query = [] then []
      else take 5 (searchByKeyword faq_fields_express (faqs kb) query))"

text \<open>
  The predicates that \<open>lookupPolicy\<close> applies, named for the statements below: the
  direct match on topic tag or title, and the keyword match, which for a policy reads
  the title and nothing else.
\<close>

definition directMatch :: "string \<Rightarrow> Policy \<Rightarrow> bool" where
  "directMatch tpc p =
     (toLowerCase (topic p) = toLowerCase tpc
      \<or> str_includes (toLowerCase (title p)) (toLowerCase tpc))"

definition titleKeywordMatch :: "string \<Rightarrow> Policy \<Rightarrow> bool" where
  "titleKeywordMatch tpc p =
     (\<exists>word \<in> set (split_ws (toLowerCase tpc)).
        2 \<le> length word \<and> str_includes (toLowerCase (title p)) word)"

section \<open>Keyword search on 16-bit code units (knowledge.ts)\<close>

text \<open>
  Lower-casing can lengthen a string once code units beyond 255 are admitted: U+0130, the
  capital I with dot above, becomes the two code units U+0069 U+0307, and it is the one
  code unit whose lower case is longer than it. The search is written out again for
  strings as lists of code units, given by their numbers. \<open>toLowerCase16\<close> covers the
  strings whose code units are below 256 or U+0130; \<open>is_ws16\<close> is the whole white space
  of \<open>\s\<close> and \<open>trim\<close>.
\<close>

type_synonym utf16 = "nat list"

definition toLowerCase16_unit :: "nat \<Rightarrow> utf16" where
  "toLowerCase16_unit n =
     (if (65 \<le> n \<and> n \<le> 90) \<or> (192 \<le> n \<and> n \<le> 222 \<and> n \<noteq> 215) then [n + 32]
      else if n = 304 then [105, 775]
      else [n])"

definition toLowerCase16 :: "utf16 \<Rightarrow> utf16" where
  "toLowerCase16 s = concat (map toLowerCase16_unit s)"

definition is_ws16 :: "nat \<Rightarrow> bool" where
  "is_ws16 n =
     (n \<in> {9, 10, 11, 12, 13, 32, 160, 5760, 8232, 8233, 8239, 8287, 12288, 65279}
      \<or> (8192 \<le> n \<and> n \<le> 8202))"

definition trim16 :: "utf16 \<Rightarrow> utf16" where
  "trim16 s = rev (dropWhile is_ws16 (rev (dropWhile is_ws16 s)))"

fun split_go16 :: "bool \<Rightarrow> utf16 \<Rightarrow> utf16 \<Rightarrow> utf16 list" where
  "split_go16 insep w [] = [w]"
| "split_go16 insep w (c # cs) =
     (if is_ws16 c then (if insep then split_go16 True [] cs else w # split_go16 True [] cs)
      else split_go16 False (w @ [c]) cs)"

definition split_ws16 :: "utf16 \<Rightarrow> utf16 list" where
  "split_ws16 s = split_go16 False [] s"

record 'n Product16 =
  p_id16 :: utf16
  name16 :: utf16
  category16 :: utf16
  description16 :: utf16
  price16 :: 'n
  inStock16 :: bool
  specs16 :: "(utf16 \<times> utf16) list option"

record FAQ16 =
  f_id16 :: utf16
  question16 :: utf16
  answer16 :: utf16
  faq_keywords16 :: "utf16 list"

definition product_fields16 :: "'n Product16 \<Rightarrow> utf16 option list" where
  "product_fields16 p = [Some (name16 p), None, None, Some (description16 p), None]"

definition faq_fields16 :: "FAQ16 \<Rightarrow> utf16 option list" where
  "faq_fields16 f = [None, Some (question16 f), None, None, Some (join [32] (faq_keywords16 f))]"

definition searchableText16 :: "utf16 option list \<Rightarrow> utf16" where
  "searchableText16 fs = toLowerCase16 (join [32] (filter_Boolean fs))"

definition searchByKeyword16 :: "('a \<Rightarrow> utf16 option list) \<Rightarrow> 'a list \<Rightarrow> utf16 \<Rightarrow> 'a list" where
  "searchByKeyword16 fieldsOf items query =
     (let queryLower = toLowerCase16 query;
          queryWords = split_ws16 queryLower
      in filter (\<lambda>item.
           list_ex (\<lambda>word. if length word < 2 then False
                           else str_includes (searchableText16 (fieldsOf item)) word) queryWords)
         items)"

text \<open>\<open>prods\<close> and \<open>fqs\<close> are the module-level collections.\<close>

definition searchProducts16 :: "'n Product16 list \<Rightarrow> utf16 \<Rightarrow> 'n Product16 list" where
  "searchProducts16 prods query =
     (if trim16 query = [] then []
      else take 10 (searchByKeyword16 product_fields16 prods query))"

definition searchFAQs16 :: "FAQ16 list \<Rightarrow> utf16 \<Rightarrow> FAQ16 list" where
  "searchFAQs16 fqs query =
     (if trim16 query = [] then []
      else take 5 (searchByKeyword16 faq_fields16 fqs query))"

section \<open>Topic guard (agent.ts)\<close>

text \<open>
  The patterns of \<open>isLikelyOffTopic\<close> use literals, grouping, alternation and \<open>?\<close>, all
  with the flag \<open>i\<close>. \<open>rmatch r s\<close> lists what is left of \<open>s\<close> after each way of
  matching \<open>r\<close> at its start, in the order a backtracking matcher tries them;
  \<open>regex_test\<close> is \<open>RegExp.prototype.test\<close>: a match at some position.
\<close>

datatype regex =
    Lit string
  | Seq regex regex
  | Alt regex regex
  | Opt regex

fun rmatch :: "regex \<Rightarrow> string \<Rightarrow> string list" where
  "rmatch (Lit l) s =
     (if toLowerCase (take (length l) s) = toLowerCase l then [drop (length l) s] else [])"
| "rmatch (Seq a b) s = concat (map (rmatch b) (rmatch a s))"
| "rmatch (Alt a b) s = rmatch a s @ rmatch b s"
| "rmatch (Opt a) s = rmatch a s @ [s]"

fun regex_test :: "regex \<Rightarrow> string \<Rightarrow> bool" where
  "regex_test r [] = (rmatch r [] \<noteq> [])"
| "regex_test r (c # cs) = (rmatch r (c # cs) \<noteq> [] \<or> regex_test r cs)"

fun one_of :: "string list \<Rightarrow> regex" where
  "one_of [] = Lit []"
| "one_of [w] = Lit w"
| "one_of (w # v # ws) = Alt (Lit w) (one_of (v # ws))"

definition offTopicPatterns :: "regex list" where
  "offTopicPatterns =
     [ Seq (Lit ''write me '') (Seq (Opt (Alt (Lit ''a '') (Lit ''an '')))
         (one_of [''poem'', ''essay'', ''story'', ''song''])),
       Seq (Lit ''what'') (Seq (Alt (Lit [CHR 0x27, CHR ''s'']) (Lit '' is''))
         (Seq (Lit '' the '') (one_of [''weather'', ''time'', ''news'', ''score'']))),
       Seq (Lit ''who '') (Seq (Alt (Lit ''is'') (Lit ''was'')) (Lit '' the president'')),
       Seq (Lit ''help me with '') (Seq (Opt (Lit ''my ''))
         (one_of [''homework'', ''code'', ''resume''])),
       Lit ''tell me a joke'',
       Lit ''what do you think about'',
       Lit ''what is the meaning of life'',
       Lit ''can you hack'',
       Lit ''give me your system prompt'',
       Lit ''ignore previous instructions'' ]"

definition isLikelyOffTopic :: "string \<Rightarrow> bool" where
  "isLikelyOffTopic message = list_ex (\<lambda>p. regex_test p message) offTopicPatterns"

section \<open>Relevance router (agent.ts, api/chat.ts)\<close>

abbreviation NL :: string where
  "NL \<equiv> [CHR 0x0A]"

abbreviation POUND :: string where
  "POUND \<equiv> [CHR 0xA3]"

text \<open>
  Three glyphs of the product block lie beyond code unit 255 (U+2022, U+2713, U+2717);
  they stand here as their UTF-8 bytes. Nothing below reads them.
\<close>

definition BULLET :: string where
  "BULLET = [CHR 0xE2, CHR 0x80, CHR 0xA2]"

definition CHECK_MARK :: string where
  "CHECK_MARK = [CHR 0xE2, CHR 0x9C, CHR 0x93]"

definition BALLOT_X :: string where
  "BALLOT_X = [CHR 0xE2, CHR 0x9C, CHR 0x97]"

text \<open>The host's renderings of a number: \<open>x.toFixed(2)\<close> and \<open>`${x}`\<close>.\<close>

record 'n NumberHost =
  toFixed2 :: "'n \<Rightarrow> string"
  numToString :: "'n \<Rightarrow> string"

definition productKeywords :: "string list" where
  "productKeywords = [''product'', ''buy'', ''price'', ''cost'', ''stock'', ''worktop'',
     ''flooring'', ''door'', ''stair'', ''oak'', ''walnut'', ''bamboo'', ''quartz'']"

definition policyKeywords :: "string list" where
  "policyKeywords = [''return'', ''refund'', ''shipping'', ''delivery'', ''warranty'',
     ''terms'', ''privacy'', ''policy'', ''discount'']"

definition faqKeywords :: "string list" where
  "faqKeywords = [''how'', ''what'', ''can i'', ''do you'', ''where'', ''when'', ''faq'', ''help'']"

definition formatProduct :: "'n NumberHost \<Rightarrow> 'n Product \<Rightarrow> string" where
  "formatProduct host p =
     (let specsLine = (case specs p of
                         None \<Rightarrow> []
                       | Some entries \<Rightarrow>
                           NL @ ''  Specs: '' @ join '', '' (map (\<lambda>(k, v). k @ '': '' @ v) entries))
      in BULLET @ '' '' @ name p @ '' ('' @ category p @ '')'' @ NL
         @ ''  '' @ description p @ NL
         @ ''  Price: '' @ POUND @ toFixed2 host (price p) @ NL
         @ ''  '' @ (if inStock p then CHECK_MARK @ '' In Stock'' else BALLOT_X @ '' Out of Stock'')
         @ specsLine)"

definition productBranch :: "'n NumberHost \<Rightarrow> 'n Product list \<Rightarrow> string" where
  "productBranch host results =
     ''PRODUCT SEARCH RESULTS:'' @ NL @ NL @ join (NL @ NL) (map (formatProduct host) results)"

definition policyBranch :: "Policy \<Rightarrow> string" where
  "policyBranch policy = ''POLICY INFO:'' @ NL @ NL @ title policy @ NL @ NL @ content policy"

definition faqBranch :: "FAQ list \<Rightarrow> string" where
  "faqBranch results =
     ''FAQ RESULTS:'' @ NL @ NL
     @ join (NL @ NL @ ''---'' @ NL @ NL)
         (map (\<lambda>f. ''Q: '' @ question f @ NL @ ''A: '' @ answer f) results)"

text \<open>The fallback of agent.ts: all three searches, whatever the keywords.\<close>

definition fallbackContext :: "'n NumberHost \<Rightarrow> 'n KnowledgeBase \<Rightarrow> string \<Rightarrow> string" where
  "fallbackContext host kb query =
     (let prods = searchProducts kb query;
          fqs = searchFAQs kb query;
          policy = lookupPolicy kb query;
          c1 = (if prods \<noteq> []
                then ''PRODUCTS:'' @ NL
                     @ join '', '' (map (\<lambda>p. name p @ '' - '' @ POUND @ numToString host (price p)) prods)
                     @ NL @ NL
                else []);
          c2 = c1 @ (if fqs \<noteq> []
                then ''RELATED FAQs:'' @ NL @ join NL (map question fqs) @ NL @ NL
                else []);
          c3 = c2 @ (case policy of
                       Some pol \<Rightarrow> ''POLICY: '' @ title pol @ NL
                     | None \<Rightarrow> [])
      in if c3 \<noteq> [] then c3 else ''No relevant information found.'')"

text \<open>
  The three keyword branches, shared by every copy of \<open>autoSearchKnowledge\<close>: the result
  of the first branch that produces output, or \<open>None\<close> when the code runs past all three.
  \<open>faqSearch\<close> is the copy's own \<open>searchFAQs\<close>.
\<close>

definition keywordBranches ::
  "'n NumberHost \<Rightarrow> ('n KnowledgeBase \<Rightarrow> string \<Rightarrow> FAQ list) \<Rightarrow> 'n KnowledgeBase \<Rightarrow> string
     \<Rightarrow> string option" where
  "keywordBranches host faqSearch kb query =
     (let queryLower = toLowerCase query;
          productOut =
            (if list_ex (\<lambda>k. str_includes queryLower k) productKeywords
             then (let results = searchProducts kb query
                   in if length results > 0 then Some (productBranch host results) else None)
             else None)
      in case productOut of
           Some out \<Rightarrow> Some out
         | None \<Rightarrow>
            (let policyOut =
                   (if list_ex (\<lambda>k. str_includes queryLower k) policyKeywords
                    then map_option policyBranch (lookupPolicy kb query)
                    else None)
             in case policyOut of
                  Some out \<Rightarrow> Some out
                | None \<Rightarrow>
                    (if list_ex (\<lambda>k. str_includes queryLower k) faqKeywords
                     then (let results = faqSearch kb query
                           in if length results > 0 then Some (faqBranch results) else None)
                     else None)))"

text \<open>agent.ts: past the three branches comes the fallback.\<close>

definition autoSearchKnowledge :: "'n NumberHost \<Rightarrow> 'n KnowledgeBase \<Rightarrow> string \<Rightarrow> string" where
  "autoSearchKnowledge host kb query =
     (case keywordBranches host searchFAQs kb query of
        Some out \<Rightarrow> out
      | None \<Rightarrow> fallbackContext host kb query)"

text \<open>api/chat.ts (Express): past the three branches the result is the empty string.\<close>

definition autoSearchKnowledge_express :: "'n NumberHost \<Rightarrow> 'n KnowledgeBase \<Rightarrow> string \<Rightarrow> string" where
  "autoSearchKnowledge_express host kb query =
     (case keywordBranches host searchFAQs_express kb query of
        Some out \<Rightarrow> out
      | None \<Rightarrow> [])"

section \<open>Completion orchestrator (agent.ts, api/chat.ts)\<close>

datatype Role = User | Assistant | System

record Message =
  role :: Role
  m_content :: string

record AgentResponse =
  r_content :: string
  r_error :: "string option"

text \<open>A thrown value: an \<open>Error\<close> with its message, or anything else.\<close>

datatype Thrown = Error string | NonError

text \<open>
  What the one call of \<open>fetch\<close> and the reading of its body come to: a rejection, a
  response that is not \<open>ok\<close> (status and body text), or a parsed body, whose
  \<open>choices?.[0]?.message\<close> is missing (\<open>None\<close>) or holds a content string. The
  provider is a function from the messages sent to this outcome; the model name, the
  temperature and the output limit of the request are constants and are left out.
\<close>

datatype Reply = Rejected Thrown | NotOk nat string | Parsed "string option"

type_synonym Provider = "Message list \<Rightarrow> Reply"

text \<open>\<open>`${n}`\<close> for a natural number: its decimal digits.\<close>

function decimal :: "nat \<Rightarrow> string" where
  "decimal n = (if n < 10 then [char_of (48 + n)]
                else decimal (n div 10) @ [char_of (48 + n mod 10)])"
  by pat_completeness auto
termination
  by (relation "measure id") auto

declare decimal.simps [simp del]

definition fallbackPersona :: string where
  "fallbackPersona = ''You are a customer service chatbot. Help customers with product questions, orders, and policies. Be friendly, professional, and concise.''"

text \<open>\<open>promptFile\<close> is the content of system-prompt.md, or \<open>None\<close> when reading it throws.\<close>

definition loadSystemPrompt :: "string option \<Rightarrow> string" where
  "loadSystemPrompt promptFile = (case promptFile of Some s \<Rightarrow> s | None \<Rightarrow> fallbackPersona)"

text \<open>
  The calls made to the provider are kept in a log, oldest first: \<open>callDeepSeekAPI\<close>
  appends the message array it sends and returns the text or the thrown error.
\<close>

definition callDeepSeekAPI ::
  "Provider \<Rightarrow> string \<Rightarrow> Message list \<Rightarrow> Message list list \<Rightarrow> (Thrown + string) \<times> Message list list" where
  "callDeepSeekAPI provider systemPrompt msgs log =
     (let sent = \<lparr>role = System, m_content = systemPrompt\<rparr> # msgs;
          result = (case provider sent of
                      Rejected e \<Rightarrow> Inl e
                    | NotOk st errorText \<Rightarrow>
                        Inl (Error (''DeepSeek API error: '' @ decimal st @ '' - '' @ errorText))
                    | Parsed None \<Rightarrow> Inl (Error ''No response from DeepSeek API'')
                    | Parsed (Some c) \<Rightarrow> Inr c)
      in (result, log @ [sent]))"

definition systemNoteText :: string where
  "systemNoteText = ''[SYSTEM NOTE: This message appears to be off-topic. Stay focused on your role as a customer service chatbot. Politely redirect to relevant topics.]''"

definition instructionSuffix :: string where
  "instructionSuffix = ''Please answer based on this information.''"

text \<open>The user content of agent.ts, from the note, the message and the context.\<close>

definition userContent :: "string \<Rightarrow> string \<Rightarrow> string \<Rightarrow> string" where
  "userContent systemNote userMessage knowledgeContext =
     systemNote @ (if systemNote \<noteq> [] then NL @ NL else [])
     @ ''CUSTOMER QUESTION: '' @ userMessage @ NL @ NL
     @ (if knowledgeContext \<noteq> []
        then ''RELEVANT KNOWLEDGE:'' @ NL @ knowledgeContext @ NL @ NL @ instructionSuffix
        else [])"

text \<open>The message array that \<open>runAgent\<close> of agent.ts hands to \<open>callDeepSeekAPI\<close>.\<close>

definition apiMessages ::
  "'n NumberHost \<Rightarrow> 'n KnowledgeBase \<Rightarrow> string \<Rightarrow> Message list \<Rightarrow> Message list" where
  "apiMessages host kb userMessage conversationHistory =
     (let systemNote = (if isLikelyOffTopic userMessage then systemNoteText else []);
          copied = map (\<lambda>msg. \<lparr>role = role msg, m_content = m_content msg\<rparr>) conversationHistory;
          knowledgeContext = autoSearchKnowledge host kb userMessage
      in copied @ [\<lparr>role = User, m_content = userContent systemNote userMessage knowledgeContext\<rparr>])"

definition agentResult :: "string \<Rightarrow> Thrown + string \<Rightarrow> AgentResponse" where
  "agentResult unknownText result =
     (case result of
        Inr response \<Rightarrow> \<lparr>r_content = response, r_error = None\<rparr>
      | Inl (Error msg) \<Rightarrow> \<lparr>r_content = [], r_error = Some msg\<rparr>
      | Inl NonError \<Rightarrow> \<lparr>r_content = [], r_error = Some unknownText\<rparr>)"

definition runAgent ::
  "'n NumberHost \<Rightarrow> 'n KnowledgeBase \<Rightarrow> Provider \<Rightarrow> string option
     \<Rightarrow> string \<Rightarrow> Message list \<Rightarrow> Message list list \<Rightarrow> AgentResponse \<times> Message list list" where
  "runAgent host kb provider promptFile userMessage conversationHistory log =
     (case callDeepSeekAPI provider (loadSystemPrompt promptFile)
             (apiMessages host kb userMessage conversationHistory) log of
        (result, log') \<Rightarrow> (agentResult ''Unknown error occurred'' result, log'))"

text \<open>
  The copy of api/chat.ts (Express): no topic guard, the router without fallback, a
  fixed persona.
\<close>

definition expressPersona :: string where
  "expressPersona = ''You are a friendly customer service chatbot for a UK home improvement store. Help with products, pricing, delivery, returns. Be concise and professional.''"

definition apiMessages_express ::
  "'n NumberHost \<Rightarrow> 'n KnowledgeBase \<Rightarrow> string \<Rightarrow> Message list \<Rightarrow> Message list" where
  "apiMessages_express host kb userMessage conversationHistory =
     (let copied = map (\<lambda>msg. \<lparr>role = role msg, m_content = m_content msg\<rparr>) conversationHistory;
          knowledgeContext = autoSearchKnowledge_express host kb userMessage
      in copied @ [\<lparr>role = User, m_content = userContent [] userMessage knowledgeContext\<rparr>])"

definition runAgent_express ::
  "'n NumberHost \<Rightarrow> 'n KnowledgeBase \<Rightarrow> Provider
     \<Rightarrow> string \<Rightarrow> Message list \<Rightarrow> Message list list \<Rightarrow> AgentResponse \<times> Message list list" where
  "runAgent_express host kb provider userMessage conversationHistory log =
     (case callDeepSeekAPI provider expressPersona
             (apiMessages_express host kb userMessage conversationHistory) log of
        (result, log') \<Rightarrow> (agentResult ''Unknown error'' result, log'))"

section \<open>Sessions and the chat handlers (config.ts, server.ts, api/chat.ts)\<close>

definition SESSION_TIMEOUT_MS :: int where
  "SESSION_TIMEOUT_MS = 30 * 60 * 1000"

definition MAX_MESSAGES_PER_SESSION :: nat where
  "MAX_MESSAGES_PER_SESSION = 50"

definition MAX_MESSAGES_PER_MINUTE :: nat where
  "MAX_MESSAGES_PER_MINUTE = 20"

definition MAX_MESSAGE_LENGTH :: nat where
  "MAX_MESSAGE_LENGTH = 500"

record Session =
  messages :: "Message list"
  lastActive :: int

record RateEntry =
  count :: nat
  resetTime :: int

text \<open>
  The parsed request body. A field that is missing reads as \<open>undefined\<close>, which the
  handlers treat as they treat the empty string; both are the empty string here.
\<close>

record ChatRequest =
  sessionId :: string
  message :: string

datatype Body = ErrorBody string | ChatBody string string | NoBody

record Response =
  status :: nat
  body :: Body

record ServerState =
  sessions :: "string \<rightharpoonup> Session"
  rateLimit :: "string \<rightharpoonup> RateEntry"

text \<open>\<open>now\<close> is the reading of \<open>Date.now()\<close> inside the function.\<close>

definition checkRateLimit ::
  "int \<Rightarrow> string \<Rightarrow> (string \<rightharpoonup> RateEntry) \<Rightarrow> bool \<times> (string \<rightharpoonup> RateEntry)" where
  "checkRateLimit now ip rl =
     (case rl ip of
        None \<Rightarrow> (True, rl(ip \<mapsto> \<lparr>count = 1, resetTime = now + 60000\<rparr>))
      | Some limit \<Rightarrow>
          if now > resetTime limit
          then (True, rl(ip \<mapsto> \<lparr>count = 1, resetTime = now + 60000\<rparr>))
          else if count limit \<ge> MAX_MESSAGES_PER_MINUTE then (False, rl)
          else (True, rl(ip \<mapsto> limit\<lparr>count := count limit + 1\<rparr>)))"

text \<open>
  The sweep of \<open>setInterval\<close>: \<open>now1\<close> and \<open>now2\<close> are its two readings of the clock.
\<close>

definition sessionCleanup :: "int \<Rightarrow> int \<Rightarrow> ServerState \<Rightarrow> ServerState" where
  "sessionCleanup now1 now2 st =
     (let cutoff = now1 - SESSION_TIMEOUT_MS
      in \<lparr>sessions = (\<lambda>id. case sessions st id of
                              None \<Rightarrow> None
                            | Some session \<Rightarrow> if lastActive session < cutoff then None else Some session),
          rateLimit = (\<lambda>ip. case rateLimit st ip of
                               None \<Rightarrow> None
                             | Some data \<Rightarrow> if now2 > resetTime data then None else Some data)\<rparr>)"

text \<open>\<open>if (response.error)\<close>: the field is there and is not the empty string.\<close>

definition errorSet :: "AgentResponse \<Rightarrow> bool" where
  "errorSet response = (case r_error response of None \<Rightarrow> False | Some e \<Rightarrow> e \<noteq> [])"

definition errorText :: "Thrown \<Rightarrow> string" where
  "errorText e = (case e of Error msg \<Rightarrow> msg | NonError \<Rightarrow> ''Internal error'')"

text \<open>
  A handler runs up to \<open>await runAgent(...)\<close> and goes on when the agent has answered.
  The first part ends with a response, or with the call it is waiting for: the request
  in hand, and the message and the history handed to the agent.
\<close>

datatype Pending = Respond Response | Await ChatRequest string "Message list"

definition getOrCreate :: "int \<Rightarrow> string \<Rightarrow> (string \<rightharpoonup> Session) \<Rightarrow> Session \<times> (string \<rightharpoonup> Session)" where
  "getOrCreate now sid store =
     (case store sid of
        Some session \<Rightarrow> (session, store)
      | None \<Rightarrow> (let session = \<lparr>messages = [], lastActive = now\<rparr>
                 in (session, store(sid \<mapsto> session))))"

text \<open>
  \<open>session.messages.push(user); session.messages.push(assistant)\<close> on the session
  object that the handler holds, which is the store's entry for the id.
\<close>

definition pushTurn :: "string \<Rightarrow> string \<Rightarrow> string \<Rightarrow> (string \<rightharpoonup> Session) \<Rightarrow> (string \<rightharpoonup> Session)" where
  "pushTurn sid userText assistantText store =
     (case store sid of
        None \<Rightarrow> store
      | Some session \<Rightarrow>
          store(sid \<mapsto> session\<lparr>messages := messages session
                 @ [\<lparr>role = User, m_content = userText\<rparr>,
                    \<lparr>role = Assistant, m_content = assistantText\<rparr>]\<rparr>))"

subsection \<open>server.ts: POST /api/chat\<close>

text \<open>
  \<open>tRate\<close>, \<open>tCreate\<close>, \<open>tActive\<close> are the readings of the clock in \<open>checkRateLimit\<close>,
  at the creation of a session and at the update of \<open>lastActive\<close>; \<open>parsed\<close> is what
  \<open>await request.json()\<close> comes to.
\<close>

definition server_chat_begin ::
  "int \<Rightarrow> int \<Rightarrow> int \<Rightarrow> string \<Rightarrow> Thrown + ChatRequest \<Rightarrow> ServerState \<Rightarrow> Pending \<times> ServerState" where
  "server_chat_begin tRate tCreate tActive ip parsed st =
     (case checkRateLimit tRate ip (rateLimit st) of
        (False, rl) \<Rightarrow>
          (Respond \<lparr>status = 429, body = ErrorBody ''Rate limit exceeded. Please try again later.''\<rparr>,
           st\<lparr>rateLimit := rl\<rparr>)
      | (True, rl) \<Rightarrow>
          (case parsed of
             Inl e \<Rightarrow> (Respond \<lparr>status = 500, body = ErrorBody (errorText e)\<rparr>, st\<lparr>rateLimit := rl\<rparr>)
           | Inr req \<Rightarrow>
               if sessionId req = [] \<or> message req = []
               then (Respond \<lparr>status = 400, body = ErrorBody ''Missing sessionId or message''\<rparr>,
                     st\<lparr>rateLimit := rl\<rparr>)
               else
                 (let msg = take MAX_MESSAGE_LENGTH (message req)
                  in case getOrCreate tCreate (sessionId req) (sessions st) of
                       (session, store) \<Rightarrow>
                         (let userMessageCount = length (filter (\<lambda>m. role m = User) (messages session))
                          in if userMessageCount \<ge> MAX_MESSAGES_PER_SESSION
                             then (Respond \<lparr>status = 400, body = ErrorBody
                                     ''Conversation limit reached. Please contact support directly.''\<rparr>,
                                   \<lparr>sessions = store, rateLimit = rl\<rparr>)
                             else (Await req msg (messages session),
                                   \<lparr>sessions = store(sessionId req \<mapsto> session\<lparr>lastActive := tActive\<rparr>),
                                      rateLimit = rl\<rparr>)))))"

definition server_chat_end :: "ChatRequest \<Rightarrow> AgentResponse \<Rightarrow> ServerState \<Rightarrow> Response \<times> ServerState" where
  "server_chat_end req response st =
     (if errorSet response
      then (\<lparr>status = 500, body = ErrorBody (the (r_error response))\<rparr>, st)
      else (let msg = take MAX_MESSAGE_LENGTH (message req)
            in (\<lparr>status = 200, body = ChatBody (r_content response) (sessionId req)\<rparr>,
                st\<lparr>sessions := pushTurn (sessionId req) msg (r_content response) (sessions st)\<rparr>)))"

text \<open>
  The whole request. \<open>agent\<close> is \<open>runAgent\<close> with its effect on the outside (\<open>'w\<close>, the
  log of provider calls for the agents above).
\<close>

definition server_chat ::
  "(string \<Rightarrow> Message list \<Rightarrow> 'w \<Rightarrow> AgentResponse \<times> 'w)
     \<Rightarrow> int \<Rightarrow> int \<Rightarrow> int \<Rightarrow> string \<Rightarrow> Thrown + ChatRequest \<Rightarrow> ServerState \<Rightarrow> 'w
     \<Rightarrow> Response \<times> ServerState \<times> 'w" where
  "server_chat agent tRate tCreate tActive ip parsed st w =
     (case server_chat_begin tRate tCreate tActive ip parsed st of
        (Respond r, st') \<Rightarrow> (r, st', w)
      | (Await req msg history, st') \<Rightarrow>
          (case agent msg history w of
             (response, w') \<Rightarrow>
               (case server_chat_end req response st' of (r, st'') \<Rightarrow> (r, st'', w'))))"

subsection \<open>api/chat.ts: the Express route and the serverless handler\<close>

text \<open>
  Both keep a store of sessions and nothing else. \<open>apiKey\<close> is \<open>DEEPSEEK_API_KEY\<close>,
  empty when the environment does not set it.
\<close>

definition express_chat_begin ::
  "string \<Rightarrow> int \<Rightarrow> int \<Rightarrow> ChatRequest \<Rightarrow> (string \<rightharpoonup> Session) \<Rightarrow> Pending \<times> (string \<rightharpoonup> Session)" where
  "express_chat_begin apiKey tCreate tActive req store =
     (if sessionId req = [] \<or> message req = []
      then (Respond \<lparr>status = 400, body = ErrorBody ''Missing sessionId or message''\<rparr>, store)
      else if apiKey = []
      then (Respond \<lparr>status = 500, body = ErrorBody ''API key not configured''\<rparr>, store)
      else
        (case getOrCreate tCreate (sessionId req) store of
           (session, store') \<Rightarrow>
             (Await req (take 500 (message req)) (messages session),
              store'(sessionId req \<mapsto> session\<lparr>lastActive := tActive\<rparr>))))"

definition express_chat_end ::
  "ChatRequest \<Rightarrow> AgentResponse \<Rightarrow> (string \<rightharpoonup> Session) \<Rightarrow> Response \<times> (string \<rightharpoonup> Session)" where
  "express_chat_end req response store =
     (if errorSet response
      then (\<lparr>status = 500, body = ErrorBody (the (r_error response))\<rparr>, store)
      else (\<lparr>status = 200, body = ChatBody (r_content response) (sessionId req)\<rparr>,
            pushTurn (sessionId req) (message req) (r_content response) store))"

definition express_chat ::
  "(string \<Rightarrow> Message list \<Rightarrow> 'w \<Rightarrow> AgentResponse \<times> 'w)
     \<Rightarrow> string \<Rightarrow> int \<Rightarrow> int \<Rightarrow> ChatRequest \<Rightarrow> (string \<rightharpoonup> Session) \<Rightarrow> 'w
     \<Rightarrow> Response \<times> (string \<rightharpoonup> Session) \<times> 'w" where
  "express_chat agent apiKey tCreate tActive req store w =
     (case express_chat_begin apiKey tCreate tActive req store of
        (Respond r, store') \<Rightarrow> (r, store', w)
      | (Await req' msg history, store') \<Rightarrow>
          (case agent msg history w of
             (response, w') \<Rightarrow>
               (case express_chat_end req' response store' of (r, store'') \<Rightarrow> (r, store'', w'))))"

text \<open>
  The serverless \<open>handler\<close>, the same text in api/chat.ts and in the inlined copy: the
  method and the key are checked before the body is read.
\<close>

datatype Method = POST | OPTIONS | OtherMethod

definition handler_begin ::
  "string \<Rightarrow> int \<Rightarrow> int \<Rightarrow> Method \<Rightarrow> Thrown + ChatRequest \<Rightarrow> (string \<rightharpoonup> Session)
     \<Rightarrow> Pending \<times> (string \<rightharpoonup> Session)" where
  "handler_begin apiKey tCreate tActive method parsed store =
     (if method = OPTIONS then (Respond \<lparr>status = 200, body = NoBody\<rparr>, store)
      else if method \<noteq> POST
      then (Respond \<lparr>status = 405, body = ErrorBody ''Method not allowed''\<rparr>, store)
      else if apiKey = []
      then (Respond \<lparr>status = 500, body = ErrorBody ''API key not configured''\<rparr>, store)
      else
        (case parsed of
           Inl e \<Rightarrow> (Respond \<lparr>status = 500, body = ErrorBody (errorText e)\<rparr>, store)
         | Inr req \<Rightarrow>
             if sessionId req = [] \<or> message req = []
             then (Respond \<lparr>status = 400, body = ErrorBody ''Missing sessionId or message''\<rparr>, store)
             else
               (case getOrCreate tCreate (sessionId req) store of
                  (session, store') \<Rightarrow>
                    (Await req (take 500 (message req)) (messages session),
                     store'(sessionId req \<mapsto> session\<lparr>lastActive := tActive\<rparr>)))))"

definition handler_end ::
  "ChatRequest \<Rightarrow> AgentResponse \<Rightarrow> (string \<rightharpoonup> Session) \<Rightarrow> Response \<times> (string \<rightharpoonup> Session)" where
  "handler_end req response store =
     (if errorSet response
      then (\<lparr>status = 500, body = ErrorBody (the (r_error response))\<rparr>, store)
      else (\<lparr>status = 200, body = ChatBody (r_content response) (sessionId req)\<rparr>,
            pushTurn (sessionId req) (message req) (r_content response) store))"

definition handler ::
  "(string \<Rightarrow> Message list \<Rightarrow> 'w \<Rightarrow> AgentResponse \<times> 'w)
     \<Rightarrow> string \<Rightarrow> int \<Rightarrow> int \<Rightarrow> Method \<Rightarrow> Thrown + ChatRequest \<Rightarrow> (string \<rightharpoonup> Session) \<Rightarrow> 'w
     \<Rightarrow> Response \<times> (string \<rightharpoonup> Session) \<times> 'w" where
  "handler agent apiKey tCreate tActive method parsed store w =
     (case handler_begin apiKey tCreate tActive method parsed store of
        (Respond r, store') \<Rightarrow> (r, store', w)
      | (Await req msg history, store') \<Rightarrow>
          (case agent msg history w of
             (response, w') \<Rightarrow>
               (case handler_end req response store' of (r, store'') \<Rightarrow> (r, store'', w'))))"

text \<open>The messages stored for a session id; none when the store has no such session.\<close>

definition storedMessages :: "(string \<rightharpoonup> Session) \<Rightarrow> string \<Rightarrow> Message list" where
  "storedMessages store sid = (case store sid of None \<Rightarrow> [] | Some session \<Rightarrow> messages session)"

definition userTurns :: "Message list \<Rightarrow> nat" where
  "userTurns msgs = length (filter (\<lambda>m. role m = User) msgs)"

section \<open>Example data\<close>

text \<open>
  The catalogue written out in api/chat.ts. Each price is kept as the decimal literal of
  the source; on these five prices, of two decimals each, \<open>toFixed(2)\<close> and string
  interpolation both give the literal back.
\<close>

definition literalHost :: "string NumberHost" where
  "literalHost = \<lparr>toFixed2 = (\<lambda>x. x), numToString = (\<lambda>x. x)\<rparr>"

definition premiumOakWorktop :: "string Product" where
  "premiumOakWorktop =
     \<lparr>p_id = ''p1'', name = ''Premium Oak Worktop'', category = ''Worktops'',
      description = ''High-quality solid oak worktop'', price = ''149.99'', inStock = True,
      specs = Some [(''thickness'', ''40mm''), (''length'', ''3m'')]\<rparr>"

definition returnsPolicy :: Policy where
  "returnsPolicy =
     \<lparr>pol_id = ''pol1'', topic = ''returns'', title = ''Returns Policy'',
      content = ''You can return any unused item within 30 days for a full refund.''\<rparr>"

definition warrantyPolicy :: Policy where
  "warrantyPolicy =
     \<lparr>pol_id = ''pol3'', topic = ''warranty'', title = ''Warranty'',
      content = ''All products come with minimum 1 year manufacturer warranty.''\<rparr>"

definition inlineKnowledge :: "string KnowledgeBase" where
  "inlineKnowledge =
     \<lparr>products =
        [premiumOakWorktop,
         \<lparr>p_id = ''p2'', name = ''Walnut Flooring'', category = ''Flooring'',
          description = ''Engineered walnut flooring'', price = ''45.99'', inStock = True,
          specs = Some [(''thickness'', ''14mm''), (''width'', ''150mm'')]\<rparr>,
         \<lparr>p_id = ''p3'', name = ''Bamboo Stair Nosing'', category = ''Stairs'',
          description = ''Bamboo stair nosing strip'', price = ''24.99'', inStock = True,
          specs = None\<rparr>,
         \<lparr>p_id = ''p4'', name = ''Quartz Worktop'', category = ''Worktops'',
          description = ''Engineered quartz surface'', price = ''299.99'', inStock = False,
          specs = None\<rparr>,
         \<lparr>p_id = ''p5'', name = ''Composite Decking'', category = ''Flooring'',
          description = ''Weather-resistant composite boards'', price = ''39.99'', inStock = True,
          specs = None\<rparr>],
      faqs =
        [\<lparr>f_id = ''f1'', question = ''How do I measure for flooring?'',
          answer = ''Measure the room length and width, multiply for square meters. Add 10% for wastage.'',
          faq_keywords = []\<rparr>,
         \<lparr>f_id = ''f2'', question = ''What'' @ [CHR 0x27] @ ''s your delivery time?'',
          answer = ''Standard delivery is 3-5 working days. Express delivery available for next day.'',
          faq_keywords = []\<rparr>,
         \<lparr>f_id = ''f3'', question = ''Do you offer installation?'',
          answer = ''Yes, we can recommend certified installers in your area. Contact us for a quote.'',
          faq_keywords = []\<rparr>,
         \<lparr>f_id = ''f4'', question = ''How do I care for oak worktops?'',
          answer = ''Oil your oak worktop every 3-6 months with danish oil. Wipe clean with damp cloth, avoid harsh chemicals.'',
          faq_keywords = []\<rparr>],
      policies =
        [returnsPolicy,
         \<lparr>pol_id = ''pol2'', topic = ''shipping'', title = ''Shipping Information'',
          content = ''Free delivery on orders over '' @ POUND @ ''100. Standard delivery ''
                    @ POUND @ ''9.99. Next day '' @ POUND @ ''19.99.''\<rparr>,
         warrantyPolicy]\<rparr>"

text \<open>A catalogue in which ten records that match "oak" come before the worktop.\<close>

definition oakShelf :: "nat \<Rightarrow> string Product" where
  "oakShelf n =
     \<lparr>p_id = ''s'' @ decimal n, name = ''Oak Shelf '' @ decimal n, category = ''Shelving'',
      description = ''Solid oak shelf'', price = ''19.99'', inStock = True, specs = None\<rparr>"

definition crowdedKnowledge :: "string KnowledgeBase" where
  "crowdedKnowledge =
     \<lparr>products = map oakShelf [0..<10] @ [premiumOakWorktop], faqs = [], policies = []\<rparr>"

text \<open>An utterance with product keywords and a policy keyword.\<close>

definition priceAndDelivery :: string where
  "priceAndDelivery = ''oak worktop delivery price''"

text \<open>An utterance that matches nothing in the catalogue.\<close>

definition nothingToFind :: string where
  "nothingToFind = ''zzzz qqqq''"

text \<open>Requests, stores and providers for the examples on the handlers.\<close>

definition helloRequest :: ChatRequest where
  "helloRequest = \<lparr>sessionId = ''s1'', message = ''hello''\<rparr>"

definition shortStore :: "string \<rightharpoonup> Session" where
  "shortStore =
     [''s1'' \<mapsto> \<lparr>messages = [\<lparr>role = User, m_content = ''q''\<rparr>,
                                \<lparr>role = Assistant, m_content = ''a''\<rparr>],
                    lastActive = 0\<rparr>]"


definition okProvider :: Provider where
  "okProvider = (\<lambda>sent. Parsed (Some ''ok''))"

definition longRequest :: ChatRequest where
  "longRequest = \<lparr>sessionId = ''s1'', message = replicate 501 (CHR ''x'')\<rparr>"

text \<open>A session that holds the maximum number of user turns.\<close>

definition fullSession :: Session where
  "fullSession =
     \<lparr>messages = concat (replicate 50 [\<lparr>role = User, m_content = ''q''\<rparr>,
                                         \<lparr>role = Assistant, m_content = ''a''\<rparr>]),
      lastActive = 0\<rparr>"

definition fullStore :: "string \<rightharpoonup> Session" where
  "fullStore = [''s1'' \<mapsto> fullSession]"

text \<open>
  A record named "\<open>U+0130\<close>nci Oak", and the query that is the one code unit U+0130.
\<close>

definition inciOak :: "string Product16" where
  "inciOak =
     \<lparr>p_id16 = [112, 57], name16 = [304, 110, 99, 105, 32, 79, 97, 107],
      category16 = [87, 111, 111, 100], description16 = [79, 97, 107, 32, 116, 111, 112],
      price16 = ''99.00'', inStock16 = True, specs16 = None\<rparr>"

definition dottedI :: utf16 where
  "dottedI = [304]"


section \<open>Properties of the text primitives\<close>

lemma is_ws_toLowerCase_char: "is_ws (toLowerCase_char c) = is_ws c"
  by (auto simp: is_ws_def toLowerCase_char_def Let_def)

lemma split_go_toLowerCase:
  "split_go b (map toLowerCase_char w) (map toLowerCase_char cs)
     = map (map toLowerCase_char) (split_go b w cs)"
proof (induction cs arbitrary: b w)
  case Nil
  show ?case by simp
next
  case (Cons c cs)
  from Cons.IH [of True "[]"] Cons.IH [of False "w @ [c]"]
  show ?case by (simp add: is_ws_toLowerCase_char)
qed

lemma split_ws_toLowerCase: "split_ws (toLowerCase q) = map toLowerCase (split_ws q)"
proof -
  have "map toLowerCase = map (map toLowerCase_char)"
    by (simp add: toLowerCase_def [abs_def])
  then show ?thesis
    using split_go_toLowerCase [of False "[]" q] by (simp add: split_ws_def toLowerCase_def)
qed

lemma length_toLowerCase: "length (toLowerCase s) = length s"
  by (simp add: toLowerCase_def)

lemma str_includes_iff: "str_includes h n \<longleftrightarrow> (\<exists>ps ss. h = ps @ n @ ss)"
proof (induction h)
  case Nil
  then show ?case by auto
next
  case (Cons c cs)
  show ?case
  proof
    assume "str_includes (c # cs) n"
    then consider "prefix n (c # cs)" | "str_includes cs n" by auto
    then show "\<exists>ps ss. c # cs = ps @ n @ ss"
    proof cases
      case 1
      then obtain ss where "c # cs = n @ ss" by (auto simp: prefix_def)
      then have "c # cs = [] @ n @ ss" by simp
      then show ?thesis by blast
    next
      case 2
      then obtain ps ss where "cs = ps @ n @ ss" using Cons.IH by blast
      then have "c # cs = (c # ps) @ n @ ss" by simp
      then show ?thesis by blast
    qed
  next
    assume "\<exists>ps ss. c # cs = ps @ n @ ss"
    then obtain ps ss where eq: "c # cs = ps @ n @ ss" by blast
    show "str_includes (c # cs) n"
    proof (cases ps)
      case Nil
      with eq have "prefix n (c # cs)" by (simp add: prefix_def)
      then show ?thesis by simp
    next
      case (Cons p ps')
      with eq have "cs = ps' @ n @ ss" by simp
      then have "str_includes cs n" using Cons.IH by blast
      then show ?thesis by simp
    qed
  qed
qed

section \<open>Keyword search\<close>

lemma searchByKeyword_short_lowered:
  assumes "\<forall>w \<in> set (split_ws (toLowerCase q)). length w < 2"
  shows "searchByKeyword fieldsOf items q = []"
proof -
  have "\<not> list_ex (\<lambda>word. if length word < 2 then False else str_includes t word)
           (split_ws (toLowerCase q))" for t :: string
    using assms by (auto simp: list_ex_iff)
  then show ?thesis by (simp add: searchByKeyword_def)
qed

lemma lowered_words_short:
  assumes "\<forall>w \<in> set (split_ws q). length w < 2"
  shows "\<forall>w \<in> set (split_ws (toLowerCase q)). length w < 2"
  using assms by (auto simp: split_ws_toLowerCase length_toLowerCase)

lemma searchByKeyword16_short:
  assumes "\<forall>w \<in> set (split_ws16 (toLowerCase16 q)). length w < 2"
  shows "searchByKeyword16 fieldsOf items q = []"
proof -
  have "\<not> list_ex (\<lambda>word. if length word < 2 then False else str_includes t word)
           (split_ws16 (toLowerCase16 q))" for t :: utf16
    using assms by (auto simp: list_ex_iff)
  then show ?thesis by (simp add: searchByKeyword16_def)
qed

text \<open>
  Below 256 the search on code units is the search on characters: lower-casing and
  white space agree under \<open>of_char\<close>.
\<close>

lemma toLowerCase16_of_char:
  "toLowerCase16 (map of_char s) = map of_char (toLowerCase s)"
proof -
  have unit: "toLowerCase16_unit n =
      [if (65 \<le> n \<and> n \<le> 90) \<or> (192 \<le> n \<and> n \<le> 222 \<and> n \<noteq> 215) then n + 32 else n]"
    if "n < 256" for n
    using that by (simp add: toLowerCase16_unit_def)
  have "toLowerCase16_unit (of_char c) = [of_char (toLowerCase_char c)]" for c
    using unit [of "of_char c"] by (auto simp: toLowerCase_char_def Let_def)
  then show ?thesis
    by (induction s) (simp_all add: toLowerCase16_def toLowerCase_def)
qed

lemma is_ws16_of_char: "is_ws16 (of_char c) = is_ws c"
proof -
  have "is_ws16 n = (n \<in> {9, 10, 11, 12, 13, 32, 160})" if "n < 256" for n
    using that by (auto simp: is_ws16_def)
  from this [of "of_char c"] show ?thesis by (simp add: is_ws_def)
qed

lemma split_go16_of_char:
  "split_go16 b (map of_char w) (map of_char cs) = map (map of_char) (split_go b w cs)"
proof (induction cs arbitrary: b w)
  case Nil
  show ?case by simp
next
  case (Cons c cs)
  from Cons.IH [of True "[]"] Cons.IH [of False "w @ [c]"]
  show ?case by (simp add: is_ws16_of_char)
qed

lemma split_ws16_of_char: "split_ws16 (map of_char s) = map (map of_char) (split_ws s)"
  using split_go16_of_char [of False "[]" s] by (simp add: split_ws16_def split_ws_def)

lemma str_includes_map:
  assumes "inj f"
  shows "str_includes (map f h) (map f n) = str_includes h n"
proof
  assume "str_includes (map f h) (map f n)"
  then obtain ps ss where "map f h = ps @ map f n @ ss"
    unfolding str_includes_iff by blast
  from map_eq_append_conv [THEN iffD1, OF this]
  obtain us vs where h: "h = us @ vs" and vs: "map f n @ ss = map f vs"
    by blast
  from append_eq_map_conv [THEN iffD1, OF vs]
  obtain n' ss' where v: "vs = n' @ ss'" and n: "map f n' = map f n"
    by metis
  from n assms have "n' = n" by (simp add: inj_map_eq_map)
  with h v have "h = us @ n @ ss'" by simp
  then show "str_includes h n" unfolding str_includes_iff by blast
next
  assume "str_includes h n"
  then obtain ps ss where "h = ps @ n @ ss" unfolding str_includes_iff by blast
  then have "map f h = map f ps @ map f n @ map f ss" by simp
  then show "str_includes (map f h) (map f n)" unfolding str_includes_iff by blast
qed

lemma join_map: "join (map f sep) (map (map f) xs) = map f (join sep xs)"
  by (induction sep xs rule: join.induct) simp_all

lemma filter_Boolean_map:
  "filter_Boolean (map (map_option (map f)) fs) = map (map f) (filter_Boolean fs)"
  by (induction fs rule: filter_Boolean.induct) simp_all

lemma inj_of_char_nat: "inj (of_char :: char \<Rightarrow> nat)"
  by (rule injI) simp

lemma searchableText16_of_char:
  "searchableText16 (map (map_option (map of_char)) fs) = map of_char (searchableText fs)"
proof -
  have "join [32::nat] (map (map of_char) xs) = map of_char (join '' '' xs)" for xs
    using join_map [of of_char "'' ''" xs] by simp
  then show ?thesis
    by (simp add: searchableText16_def searchableText_def filter_Boolean_map
        toLowerCase16_of_char)
qed

text \<open>
  On strings of code units below 256 the search on code units finds what the search on
  characters finds.
\<close>

lemma searchByKeyword16_of_char:
  "searchByKeyword16 (\<lambda>item. map (map_option (map of_char)) (fieldsOf item)) items (map of_char q)
     = searchByKeyword fieldsOf items q"
proof -
  have word: "(if length (map (of_char :: char \<Rightarrow> nat) w) < 2 then False
           else str_includes (map (of_char :: char \<Rightarrow> nat) t) (map of_char w))
      = (if length w < 2 then False else str_includes t w)" for t w
    by (simp add: str_includes_map [OF inj_of_char_nat])
  have "list_ex (\<lambda>word. if length word < 2 then False
                   else str_includes (map (of_char :: char \<Rightarrow> nat) t) word)
          (map (map of_char) ws)
      = list_ex (\<lambda>word. if length word < 2 then False else str_includes t word) ws"
    for t ws
    unfolding list_ex_iff using word [of _ t] by auto
  then show ?thesis
    unfolding searchByKeyword16_def searchByKeyword_def Let_def toLowerCase16_of_char
      split_ws16_of_char searchableText16_of_char
    by (simp only:)
qed

text \<open>
  C5, as amended. The search lower-cases the query, splits it at white space and passes
  over the words shorter than two code units. So when every word of the lower-cased query
  is shorter than two code units, \<open>searchProducts\<close> and \<open>searchFAQs\<close> return the empty
  list, in every copy and on strings of 16-bit code units as well. For a query of code
  units below 256 (a blank query included) it is enough that the words of the query itself
  are shorter than two, since lower-casing keeps their lengths.
\<close>

theorem short_lowered_words_find_nothing:
  "((\<forall>w \<in> set (split_ws (toLowerCase q)). length w < 2) \<longrightarrow>
      searchProducts kb q = [] \<and> searchFAQs kb q = [] \<and> searchFAQs_express kb q = [])
   \<and> ((\<forall>w \<in> set (split_ws q). length w < 2) \<longrightarrow>
      searchProducts kb q = [] \<and> searchFAQs kb q = [] \<and> searchFAQs_express kb q = [])
   \<and> ((\<forall>w \<in> set (split_ws16 (toLowerCase16 u)). length w < 2) \<longrightarrow>
      searchProducts16 prods u = [] \<and> searchFAQs16 fqs u = [])"
proof -
  have lowered: "(\<forall>w \<in> set (split_ws (toLowerCase q)). length w < 2) \<longrightarrow>
      searchProducts kb q = [] \<and> searchFAQs kb q = [] \<and> searchFAQs_express kb q = []"
  proof
    assume h: "\<forall>w \<in> set (split_ws (toLowerCase q)). length w < 2"
    show "searchProducts kb q = [] \<and> searchFAQs kb q = [] \<and> searchFAQs_express kb q = []"
      using searchByKeyword_short_lowered [OF h, of product_fields "products kb"]
        searchByKeyword_short_lowered [OF h, of faq_fields "faqs kb"]
        searchByKeyword_short_lowered [OF h, of faq_fields_express "faqs kb"]
      by (simp add: searchProducts_def searchFAQs_def searchFAQs_express_def)
  qed
  have raw: "(\<forall>w \<in> set (split_ws q). length w < 2) \<longrightarrow>
      searchProducts kb q = [] \<and> searchFAQs kb q = [] \<and> searchFAQs_express kb q = []"
    using lowered lowered_words_short [of q] by blast
  have wide: "(\<forall>w \<in> set (split_ws16 (toLowerCase16 u)). length w < 2) \<longrightarrow>
      searchProducts16 prods u = [] \<and> searchFAQs16 fqs u = []"
  proof
    assume h: "\<forall>w \<in> set (split_ws16 (toLowerCase16 u)). length w < 2"
    show "searchProducts16 prods u = [] \<and> searchFAQs16 fqs u = []"
      using searchByKeyword16_short [OF h, of product_fields16 prods]
        searchByKeyword16_short [OF h, of faq_fields16 fqs]
      by (simp add: searchProducts16_def searchFAQs16_def)
  qed
  show ?thesis by (rule conjI [OF lowered conjI [OF raw wide]])
qed

theorem short_lowered_words_find_nothing_witness:
  "split_ws (toLowerCase ''A b  c'') = [''a'', ''b'', ''c'']
   \<and> split_ws ''A b  c'' = [''A'', ''b'', ''c'']
   \<and> searchProducts inlineKnowledge ''A b  c'' = []
   \<and> searchFAQs inlineKnowledge ''A b  c'' = []
   \<and> searchFAQs_express inlineKnowledge ''A b  c'' = []
   \<and> split_ws16 (toLowerCase16 [79, 32, 107]) = [[111], [107]]
   \<and> searchProducts16 [inciOak] [79, 32, 107] = []"
proof -
  have a: "split_ws (toLowerCase ''A b  c'') = [''a'', ''b'', ''c'']" by code_simp
  have b: "split_ws ''A b  c'' = [''A'', ''b'', ''c'']" by code_simp
  have c: "split_ws16 (toLowerCase16 [79, 32, 107]) = [[111], [107]]"
    by (simp add: split_ws16_def toLowerCase16_def toLowerCase16_unit_def is_ws16_def)
  from a have ha: "\<forall>w \<in> set (split_ws (toLowerCase ''A b  c'')). length w < 2" by simp
  from b have hb: "\<forall>w \<in> set (split_ws ''A b  c''). length w < 2" by simp
  from c have hc: "\<forall>w \<in> set (split_ws16 (toLowerCase16 [79, 32, 107])). length w < 2" by simp
  from short_lowered_words_find_nothing [of "''A b  c''" inlineKnowledge "[79, 32, 107]" "[inciOak]"]
    ha hb hc
  have "searchProducts inlineKnowledge ''A b  c'' = []
     \<and> searchFAQs inlineKnowledge ''A b  c'' = []
     \<and> searchFAQs_express inlineKnowledge ''A b  c'' = []
     \<and> searchProducts16 [inciOak] [79, 32, 107] = []"
    by blast
  with a b c show ?thesis by blast
qed

text \<open>
  C5 as stated fails on the query that is the one code unit U+0130: its only word has
  length one, its lower case has length two and occurs in the lower-cased name of the
  record.
\<close>

theorem dotted_capital_I_is_found:
  "split_ws16 dottedI = [dottedI]
   \<and> length dottedI = 1
   \<and> toLowerCase16 dottedI = [105, 775]
   \<and> searchProducts16 [inciOak] dottedI = [inciOak]"
  by (simp add: dottedI_def inciOak_def split_ws16_def is_ws16_def trim16_def
      toLowerCase16_def toLowerCase16_unit_def searchProducts16_def searchByKeyword16_def
      searchableText16_def product_fields16_def)

lemma nth_in_take_filter:
  assumes "i < length xs" and "P (xs ! i)" and "length (filter P (take i xs)) < n"
  shows "xs ! i \<in> set (take n (filter P xs))"
proof -
  have "xs = take i xs @ xs ! i # drop (Suc i) xs"
    using assms(1) by (simp add: id_take_nth_drop)
  then have "filter P xs = filter P (take i xs) @ xs ! i # filter P (drop (Suc i) xs)"
    using assms(2) by (metis filter.simps(2) filter_append)
  moreover obtain m where "n - length (filter P (take i xs)) = Suc m"
    using assms(3) by (metis Suc_diff_Suc)
  ultimately show ?thesis by simp
qed

lemma searchByKeyword_filter:
  "searchByKeyword fieldsOf items q =
     filter (\<lambda>item. \<exists>word \<in> set (split_ws (toLowerCase q)).
                2 \<le> length word \<and> str_includes (searchableText (fieldsOf item)) word) items"
  unfolding searchByKeyword_def Let_def
proof (rule filter_cong)
  fix item
  have "(if length word < 2 then False else str_includes t word)
          = (2 \<le> length word \<and> str_includes t word)" for word :: string and t
    by auto
  then show "list_ex (\<lambda>word. if length word < 2 then False
                 else str_includes (searchableText (fieldsOf item)) word) (split_ws (toLowerCase q))
     = (\<exists>word \<in> set (split_ws (toLowerCase q)).
                2 \<le> length word \<and> str_includes (searchableText (fieldsOf item)) word)"
    by (simp add: list_ex_iff)
qed simp

lemma split_ws_oak: "split_ws (toLowerCase ''oak'') = [''oak'']"
  by code_simp

lemma toLowerCase_append: "toLowerCase (a @ b) = toLowerCase a @ toLowerCase b"
  by (simp add: toLowerCase_def)

lemma toLowerCase_worktop: "toLowerCase ''Premium Oak Worktop'' = ''premium oak worktop''"
  by code_simp

lemma worktop_matches_oak:
  assumes "name p = ''Premium Oak Worktop''"
  shows "str_includes (searchableText (product_fields p)) ''oak''"
proof -
  obtain rest where "join '' '' (filter_Boolean (product_fields p)) = ''Premium Oak Worktop'' @ rest"
    using assms by (cases "description p = []") (simp_all add: product_fields_def)
  then have "searchableText (product_fields p)
      = ''premium '' @ ''oak'' @ ('' worktop'' @ toLowerCase rest)"
    by (simp only: searchableText_def toLowerCase_append toLowerCase_worktop) simp
  then show ?thesis unfolding str_includes_iff by blast
qed

lemma trim_oak: "trim ''oak'' \<noteq> []"
  by (simp add: trim_def is_ws_def)

text \<open>
  C6, as amended. For every query and catalogue \<open>searchProducts\<close> returns at most ten
  records, in the order of the store. A record named "Premium Oak Worktop" is among the
  results for "oak" whenever fewer than ten records that match "oak" stand before it in
  the store.
\<close>

theorem searchProducts_bounded_ordered:
  "length (searchProducts kb q) \<le> 10
   \<and> subseq (searchProducts kb q) (products kb)
   \<and> (i < length (products kb) \<and> name (products kb ! i) = ''Premium Oak Worktop''
        \<and> length (searchByKeyword product_fields (take i (products kb)) ''oak'') < 10
      \<longrightarrow> products kb ! i \<in> set (searchProducts kb ''oak''))"
proof (intro conjI impI)
  show "length (searchProducts kb q) \<le> 10"
    by (simp add: searchProducts_def)
next
  have "subseq (searchByKeyword product_fields (products kb) q) (products kb)"
    by (simp add: searchByKeyword_filter)
  then have "subseq (take 10 (searchByKeyword product_fields (products kb) q)) (products kb)"
    by (rule subseq_order.trans [OF prefix_imp_subseq [OF take_is_prefix]])
  then show "subseq (searchProducts kb q) (products kb)"
    by (simp add: searchProducts_def)
next
  assume h: "i < length (products kb) \<and> name (products kb ! i) = ''Premium Oak Worktop''
        \<and> length (searchByKeyword product_fields (take i (products kb)) ''oak'') < 10"
  define P where "P = (\<lambda>item::'a Product. \<exists>word \<in> set (split_ws (toLowerCase ''oak'')).
                2 \<le> length word \<and> str_includes (searchableText (product_fields item)) word)"
  have search: "searchByKeyword product_fields items ''oak'' = filter P items" for items
    unfolding P_def by (rule searchByKeyword_filter)
  from h have i: "i < length (products kb)" by blast
  have "P (products kb ! i)"
    using h worktop_matches_oak [of "products kb ! i"] by (simp add: P_def split_ws_oak)
  moreover have "length (filter P (take i (products kb))) < 10"
    using h by (simp add: search)
  ultimately have "products kb ! i \<in> set (take 10 (filter P (products kb)))"
    by (rule nth_in_take_filter [OF i])
  then show "products kb ! i \<in> set (searchProducts kb ''oak'')"
    using trim_oak by (simp add: searchProducts_def search)
qed

theorem searchProducts_bounded_ordered_witness:
  "length (searchProducts inlineKnowledge ''oak'') \<le> 10
   \<and> subseq (searchProducts inlineKnowledge ''oak'') (products inlineKnowledge)
   \<and> products inlineKnowledge ! 0 = premiumOakWorktop
   \<and> premiumOakWorktop \<in> set (searchProducts inlineKnowledge ''oak'')"
proof -
  have a: "products inlineKnowledge ! 0 = premiumOakWorktop"
    by (simp add: inlineKnowledge_def)
  have b: "0 < length (products inlineKnowledge)"
    by (simp add: inlineKnowledge_def)
  have c: "name (products inlineKnowledge ! 0) = ''Premium Oak Worktop''"
    by (simp add: a premiumOakWorktop_def)
  have d: "length (searchByKeyword product_fields (take 0 (products inlineKnowledge)) ''oak'') < 10"
    by (simp add: searchByKeyword_def)
  from searchProducts_bounded_ordered [of inlineKnowledge "''oak''" 0] a b c d
  show ?thesis by simp
qed

text \<open>
  C6 as stated fails where ten matching records precede the worktop: the result is cut
  after the tenth match.
\<close>

theorem searchProducts_oak_truncated:
  "premiumOakWorktop \<in> set (products crowdedKnowledge)
   \<and> name premiumOakWorktop = ''Premium Oak Worktop''
   \<and> premiumOakWorktop \<notin> set (searchProducts crowdedKnowledge ''oak'')"
  by code_simp

section \<open>Policy lookup\<close>

lemma first_of_filter: "(case filter P xs of [] \<Rightarrow> None | r # _ \<Rightarrow> Some r) = find P xs"
  by (induction xs) simp_all

lemma searchByKeyword_policies:
  "searchByKeyword policy_fields ps tpc = filter (titleKeywordMatch tpc) ps"
proof -
  have "searchableText (policy_fields p) = toLowerCase (title p)" for p
    by (cases "title p = []") (simp_all add: searchableText_def policy_fields_def)
  then show ?thesis
    by (simp add: searchByKeyword_filter titleKeywordMatch_def [abs_def])
qed

lemma lookupPolicy_unfold:
  assumes "trim tpc \<noteq> []"
  shows "lookupPolicy kb tpc =
     (case find (directMatch tpc) (policies kb) of
        Some p \<Rightarrow> Some p
      | None \<Rightarrow> find (titleKeywordMatch tpc) (policies kb))"
  using assms
  by (simp add: lookupPolicy_def Let_def directMatch_def [abs_def] searchByKeyword_policies
      first_of_filter split: option.split)

lemma trim_refund: "trim ''refund'' \<noteq> []"
  by (simp add: trim_def is_ws_def)

lemma split_ws_refund: "split_ws ''refund'' = [''refund'']"
  by code_simp

lemma toLowerCase_refund: "toLowerCase ''refund'' = ''refund''"
  by code_simp

lemma titleKeywordMatch_refund: "titleKeywordMatch ''refund'' p \<Longrightarrow> directMatch ''refund'' p"
  by (simp add: titleKeywordMatch_def directMatch_def split_ws_refund toLowerCase_refund)

lemma lookupPolicy_refund: "lookupPolicy kb ''refund'' = find (directMatch ''refund'') (policies kb)"
proof (cases "find (directMatch ''refund'') (policies kb)")
  case None
  then have "\<forall>p \<in> set (policies kb). \<not> directMatch ''refund'' p"
    by (simp add: find_None_iff)
  then have "\<forall>p \<in> set (policies kb). \<not> titleKeywordMatch ''refund'' p"
    using titleKeywordMatch_refund by blast
  then have "find (titleKeywordMatch ''refund'') (policies kb) = None"
    by (simp add: find_None_iff)
  with None show ?thesis by (simp add: lookupPolicy_unfold [OF trim_refund])
next
  case (Some p)
  then show ?thesis by (simp add: lookupPolicy_unfold [OF trim_refund])
qed

text \<open>
  C2, as amended. For a topic that is not blank, \<open>lookupPolicy\<close> returns the first
  policy whose topic tag equals the topic or whose title contains it, both without
  regard to case. When there is none, it returns the first policy whose lower-cased
  title contains a word of the topic of two characters or more, and nothing when no
  title does; the content of a policy is not read. So \<open>lookupPolicy "refund"\<close> returns
  a policy whose topic tag is, or whose title contains, "refund", and nothing when there
  is no such policy.
\<close>

theorem lookupPolicy_direct_then_title_keywords:
  assumes "trim tpc \<noteq> []"
  shows
    "((\<exists>p \<in> set (policies kb). directMatch tpc p) \<longrightarrow>
        (\<exists>before p after. policies kb = before @ p # after \<and> directMatch tpc p
           \<and> (\<forall>q \<in> set before. \<not> directMatch tpc q) \<and> lookupPolicy kb tpc = Some p))
     \<and> ((\<forall>p \<in> set (policies kb). \<not> directMatch tpc p) \<longrightarrow>
          lookupPolicy kb tpc = find (titleKeywordMatch tpc) (policies kb))
     \<and> (lookupPolicy kb ''refund'' = None \<longleftrightarrow>
          (\<forall>p \<in> set (policies kb). \<not> (toLowerCase (topic p) = ''refund''
                 \<or> str_includes (toLowerCase (title p)) ''refund'')))
     \<and> (\<forall>p. lookupPolicy kb ''refund'' = Some p \<longrightarrow>
          p \<in> set (policies kb) \<and> (toLowerCase (topic p) = ''refund''
                 \<or> str_includes (toLowerCase (title p)) ''refund''))"
proof -
  have first: "(\<exists>p \<in> set (policies kb). directMatch tpc p) \<longrightarrow>
        (\<exists>before p after. policies kb = before @ p # after \<and> directMatch tpc p
           \<and> (\<forall>q \<in> set before. \<not> directMatch tpc q) \<and> lookupPolicy kb tpc = Some p)"
  proof
    assume "\<exists>p \<in> set (policies kb). directMatch tpc p"
    then obtain p where p: "find (directMatch tpc) (policies kb) = Some p"
      by (cases "find (directMatch tpc) (policies kb)") (auto simp: find_None_iff)
    then obtain i where i: "i < length (policies kb)" "directMatch tpc (policies kb ! i)"
        "p = policies kb ! i" "\<forall>j<i. \<not> directMatch tpc (policies kb ! j)"
      unfolding find_Some_iff by blast
    have split: "policies kb = take i (policies kb) @ p # drop (Suc i) (policies kb)"
      using i by (simp add: id_take_nth_drop)
    have "\<forall>q \<in> set (take i (policies kb)). \<not> directMatch tpc q"
      using i by (auto simp: in_set_conv_nth)
    moreover have "lookupPolicy kb tpc = Some p"
      using p by (simp add: lookupPolicy_unfold [OF assms])
    ultimately show "\<exists>before p after. policies kb = before @ p # after \<and> directMatch tpc p
             \<and> (\<forall>q \<in> set before. \<not> directMatch tpc q) \<and> lookupPolicy kb tpc = Some p"
      using split i by blast
  qed
  have fallback: "(\<forall>p \<in> set (policies kb). \<not> directMatch tpc p) \<longrightarrow>
          lookupPolicy kb tpc = find (titleKeywordMatch tpc) (policies kb)"
  proof
    assume "\<forall>p \<in> set (policies kb). \<not> directMatch tpc p"
    then have "find (directMatch tpc) (policies kb) = None"
      by (simp add: find_None_iff)
    then show "lookupPolicy kb tpc = find (titleKeywordMatch tpc) (policies kb)"
      by (simp add: lookupPolicy_unfold [OF assms])
  qed
  have absent: "lookupPolicy kb ''refund'' = None \<longleftrightarrow>
          (\<forall>p \<in> set (policies kb). \<not> (toLowerCase (topic p) = ''refund''
                 \<or> str_includes (toLowerCase (title p)) ''refund''))"
    by (auto simp: lookupPolicy_refund find_None_iff directMatch_def toLowerCase_refund)
  have present: "\<forall>p. lookupPolicy kb ''refund'' = Some p \<longrightarrow>
          p \<in> set (policies kb) \<and> (toLowerCase (topic p) = ''refund''
                 \<or> str_includes (toLowerCase (title p)) ''refund'')"
  proof (intro allI impI)
    fix p
    assume "lookupPolicy kb ''refund'' = Some p"
    then have "find (directMatch ''refund'') (policies kb) = Some p"
      by (simp add: lookupPolicy_refund)
    then have "p \<in> set (policies kb) \<and> directMatch ''refund'' p"
      unfolding find_Some_iff by auto
    then show "p \<in> set (policies kb) \<and> (toLowerCase (topic p) = ''refund''
                   \<or> str_includes (toLowerCase (title p)) ''refund'')"
      by (simp add: directMatch_def toLowerCase_refund)
  qed
  show ?thesis
    by (rule conjI [OF first conjI [OF fallback conjI [OF absent present]]])
qed

text \<open>
  C2 as stated fails on the catalogue of api/chat.ts: the content of the returns policy
  mentions "refund", and \<open>lookupPolicy "refund"\<close> finds nothing.
\<close>

theorem lookupPolicy_refund_ignores_content:
  "returnsPolicy \<in> set (policies inlineKnowledge)
   \<and> str_includes (toLowerCase (content returnsPolicy)) ''refund''
   \<and> lookupPolicy inlineKnowledge ''refund'' = None"
  by code_simp

theorem lookupPolicy_direct_then_title_keywords_witness:
  "trim ''what is your warranty'' \<noteq> []
   \<and> find (directMatch ''what is your warranty'') (policies inlineKnowledge) = None
   \<and> lookupPolicy inlineKnowledge ''what is your warranty'' = Some warrantyPolicy
   \<and> (\<exists>before p after. policies inlineKnowledge = before @ p # after
          \<and> directMatch ''returns'' p \<and> (\<forall>q \<in> set before. \<not> directMatch ''returns'' q)
          \<and> lookupPolicy inlineKnowledge ''returns'' = Some p)
   \<and> lookupPolicy inlineKnowledge ''refund'' = None"
proof -
  have t1: "trim ''what is your warranty'' \<noteq> []" by code_simp
  have t2: "trim ''returns'' \<noteq> []" by code_simp
  have none: "find (directMatch ''what is your warranty'') (policies inlineKnowledge) = None"
    by code_simp
  then have nodirect: "\<forall>p \<in> set (policies inlineKnowledge). \<not> directMatch ''what is your warranty'' p"
    by (simp add: find_None_iff)
  have hit: "find (titleKeywordMatch ''what is your warranty'') (policies inlineKnowledge)
               = Some warrantyPolicy"
    by code_simp
  have direct: "\<exists>p \<in> set (policies inlineKnowledge). directMatch ''returns'' p"
    by code_simp
  have norefund: "\<forall>p \<in> set (policies inlineKnowledge). \<not> (toLowerCase (topic p) = ''refund''
                 \<or> str_includes (toLowerCase (title p)) ''refund'')"
    by code_simp
  from lookupPolicy_direct_then_title_keywords [OF t1, of inlineKnowledge] nodirect hit
  have a: "lookupPolicy inlineKnowledge ''what is your warranty'' = Some warrantyPolicy"
    by simp
  from lookupPolicy_direct_then_title_keywords [OF t2, of inlineKnowledge] direct norefund
  have b: "(\<exists>before p after. policies inlineKnowledge = before @ p # after
          \<and> directMatch ''returns'' p \<and> (\<forall>q \<in> set before. \<not> directMatch ''returns'' q)
          \<and> lookupPolicy inlineKnowledge ''returns'' = Some p)
     \<and> lookupPolicy inlineKnowledge ''refund'' = None"
    by blast
  from t1 none a b show ?thesis by blast
qed

section \<open>Topic guard and the outbound user content\<close>

lemma flags_poem: "isLikelyOffTopic ''write me a poem about your products''"
  by code_simp

lemma rmatch_Lit_prefix:
  assumes "rmatch (Lit l) t \<noteq> []"
  shows "prefix (toLowerCase l) (toLowerCase t)"
proof -
  from assms have "toLowerCase (take (length l) t) = toLowerCase l"
    by (simp split: if_splits)
  moreover have "toLowerCase t = toLowerCase (take (length l) t) @ toLowerCase (drop (length l) t)"
    by (simp flip: toLowerCase_append)
  ultimately show ?thesis by (simp add: prefix_def)
qed

lemma rmatch_Seq_Lit_prefix:
  assumes "rmatch (Seq (Lit l) r) t \<noteq> []"
  shows "prefix (toLowerCase l) (toLowerCase t)"
proof -
  from assms have "rmatch (Lit l) t \<noteq> []" by auto
  then show ?thesis by (rule rmatch_Lit_prefix)
qed

lemma regex_test_anchor:
  assumes "\<And>t. rmatch r t \<noteq> [] \<Longrightarrow> prefix a (toLowerCase t)"
  shows "regex_test r s \<Longrightarrow> str_includes (toLowerCase s) a"
proof (induction s)
  case Nil
  then have "prefix a (toLowerCase [])" using assms by simp
  then show ?case by (simp add: toLowerCase_def)
next
  case (Cons c cs)
  from Cons.prems consider "rmatch r (c # cs) \<noteq> []" | "regex_test r cs" by auto
  then show ?case
  proof cases
    case 1
    then have "prefix a (toLowerCase (c # cs))" by (rule assms)
    then show ?thesis by (simp add: toLowerCase_def)
  next
    case 2
    then have "str_includes (toLowerCase cs) a" by (rule Cons.IH)
    then show ?thesis by (simp add: toLowerCase_def)
  qed
qed

lemma anchor_lower:
  "toLowerCase ''write me '' = ''write me ''"
  "toLowerCase ''what'' = ''what''"
  "toLowerCase ''who '' = ''who ''"
  "toLowerCase ''help me with '' = ''help me with ''"
  "toLowerCase ''tell me a joke'' = ''tell me a joke''"
  "toLowerCase ''what do you think about'' = ''what do you think about''"
  "toLowerCase ''what is the meaning of life'' = ''what is the meaning of life''"
  "toLowerCase ''can you hack'' = ''can you hack''"
  "toLowerCase ''give me your system prompt'' = ''give me your system prompt''"
  "toLowerCase ''ignore previous instructions'' = ''ignore previous instructions''"
  by code_simp+

lemma offTopic_anchor:
  assumes "isLikelyOffTopic s"
  shows "list_ex (str_includes (toLowerCase s))
           [''write me '', ''what'', ''who '', ''help me with '', ''tell me a joke'',
            ''what do you think about'', ''what is the meaning of life'', ''can you hack'',
            ''give me your system prompt'', ''ignore previous instructions'']"
proof -
  have seq: "regex_test (Seq (Lit l) r) s \<Longrightarrow> str_includes (toLowerCase s) (toLowerCase l)" for l r
    by (rule regex_test_anchor [OF rmatch_Seq_Lit_prefix])
  have lit: "regex_test (Lit l) s \<Longrightarrow> str_includes (toLowerCase s) (toLowerCase l)" for l
    by (rule regex_test_anchor [OF rmatch_Lit_prefix])
  from assms show ?thesis
    unfolding isLikelyOffTopic_def offTopicPatterns_def
    using seq [of "''write me ''"] seq [of "''what''"] seq [of "''who ''"]
      seq [of "''help me with ''"] lit [of "''tell me a joke''"]
      lit [of "''what do you think about''"] lit [of "''what is the meaning of life''"]
      lit [of "''can you hack''"] lit [of "''give me your system prompt''"]
      lit [of "''ignore previous instructions''"]
    by (auto simp only: list_ex_Cons_iff list_ex_Nil_iff anchor_lower)
qed

lemma passes_stock_question: "\<not> isLikelyOffTopic ''do you have oak worktops in stock''"
proof
  assume "isLikelyOffTopic ''do you have oak worktops in stock''"
  then have "list_ex (str_includes (toLowerCase ''do you have oak worktops in stock''))
           [''write me '', ''what'', ''who '', ''help me with '', ''tell me a joke'',
            ''what do you think about'', ''what is the meaning of life'', ''can you hack'',
            ''give me your system prompt'', ''ignore previous instructions'']"
    by (rule offTopic_anchor)
  moreover have "\<not> list_ex (str_includes (toLowerCase ''do you have oak worktops in stock''))
           [''write me '', ''what'', ''who '', ''help me with '', ''tell me a joke'',
            ''what do you think about'', ''what is the meaning of life'', ''can you hack'',
            ''give me your system prompt'', ''ignore previous instructions'']"
    by code_simp
  ultimately show False by blast
qed

lemma copied_history: "map (\<lambda>msg. \<lparr>role = role msg, m_content = m_content msg\<rparr>) history = history"
  by (induction history) simp_all

lemma apiMessages_shape:
  "apiMessages host kb userMessage history =
     history @ [\<lparr>role = User,
                 m_content = userContent (if isLikelyOffTopic userMessage then systemNoteText else [])
                               userMessage (autoSearchKnowledge host kb userMessage)\<rparr>]"
  by (simp add: apiMessages_def Let_def copied_history)

lemma systemNoteText_nonempty: "systemNoteText \<noteq> []"
  by (simp add: systemNoteText_def)

lemma runAgent_log:
  "snd (runAgent host kb provider promptFile userMessage history log) =
     log @ [\<lparr>role = System, m_content = loadSystemPrompt promptFile\<rparr>
              # apiMessages host kb userMessage history]"
  by (simp add: runAgent_def callDeepSeekAPI_def Let_def split: prod.split)

text \<open>
  C7. The guard flags "write me a poem about your products" and does not flag "do you
  have oak worktops in stock". When a message is flagged, the message array of
  \<open>runAgent\<close> is the history followed by one user message whose content starts with the
  note, a blank line and the customer question: the note is no message of its own. Flagged
  or not, \<open>runAgent\<close> sends the array to the provider, once.
\<close>

theorem topic_guard_annotates:
  "isLikelyOffTopic ''write me a poem about your products''
   \<and> \<not> isLikelyOffTopic ''do you have oak worktops in stock''
   \<and> (isLikelyOffTopic userMessage \<longrightarrow>
        (\<exists>rest. apiMessages host kb userMessage history =
           history @ [\<lparr>role = User,
                       m_content = systemNoteText @ NL @ NL @ ''CUSTOMER QUESTION: '' @ userMessage
                                   @ NL @ NL @ rest\<rparr>]))
   \<and> snd (runAgent host kb provider promptFile userMessage history log) =
        log @ [\<lparr>role = System, m_content = loadSystemPrompt promptFile\<rparr>
                # apiMessages host kb userMessage history]
   \<and> length (apiMessages host kb userMessage history) = length history + 1"
proof -
  have annotated: "isLikelyOffTopic userMessage \<longrightarrow>
        (\<exists>rest. apiMessages host kb userMessage history =
           history @ [\<lparr>role = User,
                       m_content = systemNoteText @ NL @ NL @ ''CUSTOMER QUESTION: '' @ userMessage
                                   @ NL @ NL @ rest\<rparr>])"
    by (simp add: apiMessages_shape userContent_def systemNoteText_nonempty)
  have len: "length (apiMessages host kb userMessage history) = length history + 1"
    by (simp add: apiMessages_shape)
  show ?thesis
    by (rule conjI [OF flags_poem conjI [OF passes_stock_question
          conjI [OF annotated conjI [OF runAgent_log len]]]])
qed

theorem topic_guard_annotates_witness:
  "isLikelyOffTopic ''write me a poem about your products''
   \<and> (\<exists>rest. apiMessages literalHost inlineKnowledge ''write me a poem about your products'' [] =
           [\<lparr>role = User,
             m_content = systemNoteText @ NL @ NL
                         @ ''CUSTOMER QUESTION: write me a poem about your products''
                         @ NL @ NL @ rest\<rparr>])"
proof -
  have f: "isLikelyOffTopic ''write me a poem about your products''" by code_simp
  from topic_guard_annotates [of "''write me a poem about your products''" literalHost
      inlineKnowledge "[]"] f
  show ?thesis by simp
qed

section \<open>Relevance router\<close>

lemma keywordBranches_dispatch:
  "keywordBranches host faqSearch kb q =
     (if list_ex (str_includes (toLowerCase q)) productKeywords \<and> searchProducts kb q \<noteq> []
      then Some (productBranch host (searchProducts kb q))
      else if list_ex (str_includes (toLowerCase q)) policyKeywords \<and> lookupPolicy kb q \<noteq> None
      then Some (policyBranch (the (lookupPolicy kb q)))
      else if list_ex (str_includes (toLowerCase q)) faqKeywords \<and> faqSearch kb q \<noteq> []
      then Some (faqBranch (faqSearch kb q))
      else None)"
  by (auto simp: keywordBranches_def Let_def split: option.splits)

lemma productBranch_header:
  "prefix ''PRODUCT SEARCH RESULTS:'' (productBranch host results)"
  by (simp add: productBranch_def)

lemma productBranch_not_policy: "productBranch host results \<noteq> policyBranch pol"
  by (simp add: productBranch_def policyBranch_def)

lemma productBranch_not_faq: "productBranch host results \<noteq> faqBranch fs"
  by (simp add: productBranch_def faqBranch_def)

text \<open>
  C3. The router takes the first of the branches product, policy, FAQ that produces
  output, and past them the fallback (agent.ts) or the empty string (api/chat.ts). So an
  utterance that contains a product keyword, and for which the product search finds
  something, gets the product block, headed "PRODUCT SEARCH RESULTS", whatever policy or
  FAQ keywords it contains; that block is no policy block and no FAQ block.
\<close>

theorem router_first_match_wins:
  "autoSearchKnowledge host kb q =
     (if list_ex (str_includes (toLowerCase q)) productKeywords \<and> searchProducts kb q \<noteq> []
      then productBranch host (searchProducts kb q)
      else if list_ex (str_includes (toLowerCase q)) policyKeywords \<and> lookupPolicy kb q \<noteq> None
      then policyBranch (the (lookupPolicy kb q))
      else if list_ex (str_includes (toLowerCase q)) faqKeywords \<and> searchFAQs kb q \<noteq> []
      then faqBranch (searchFAQs kb q)
      else fallbackContext host kb q)
   \<and> autoSearchKnowledge_express host kb q =
     (if list_ex (str_includes (toLowerCase q)) productKeywords \<and> searchProducts kb q \<noteq> []
      then productBranch host (searchProducts kb q)
      else if list_ex (str_includes (toLowerCase q)) policyKeywords \<and> lookupPolicy kb q \<noteq> None
      then policyBranch (the (lookupPolicy kb q))
      else if list_ex (str_includes (toLowerCase q)) faqKeywords \<and> searchFAQs_express kb q \<noteq> []
      then faqBranch (searchFAQs_express kb q)
      else [])
   \<and> (list_ex (str_includes (toLowerCase q)) productKeywords \<and> searchProducts kb q \<noteq> [] \<longrightarrow>
        autoSearchKnowledge host kb q = productBranch host (searchProducts kb q)
        \<and> autoSearchKnowledge_express host kb q = productBranch host (searchProducts kb q)
        \<and> prefix ''PRODUCT SEARCH RESULTS:'' (autoSearchKnowledge host kb q)
        \<and> prefix ''PRODUCT SEARCH RESULTS:'' (autoSearchKnowledge_express host kb q)
        \<and> autoSearchKnowledge host kb q \<noteq> policyBranch pol
        \<and> autoSearchKnowledge host kb q \<noteq> faqBranch fs
        \<and> autoSearchKnowledge_express host kb q \<noteq> policyBranch pol
        \<and> autoSearchKnowledge_express host kb q \<noteq> faqBranch fs)"
proof -
  have agent: "autoSearchKnowledge host kb q =
     (if list_ex (str_includes (toLowerCase q)) productKeywords \<and> searchProducts kb q \<noteq> []
      then productBranch host (searchProducts kb q)
      else if list_ex (str_includes (toLowerCase q)) policyKeywords \<and> lookupPolicy kb q \<noteq> None
      then policyBranch (the (lookupPolicy kb q))
      else if list_ex (str_includes (toLowerCase q)) faqKeywords \<and> searchFAQs kb q \<noteq> []
      then faqBranch (searchFAQs kb q)
      else fallbackContext host kb q)"
    by (auto simp: autoSearchKnowledge_def keywordBranches_dispatch)
  have express: "autoSearchKnowledge_express host kb q =
     (if list_ex (str_includes (toLowerCase q)) productKeywords \<and> searchProducts kb q \<noteq> []
      then productBranch host (searchProducts kb q)
      else if list_ex (str_includes (toLowerCase q)) policyKeywords \<and> lookupPolicy kb q \<noteq> None
      then policyBranch (the (lookupPolicy kb q))
      else if list_ex (str_includes (toLowerCase q)) faqKeywords \<and> searchFAQs_express kb q \<noteq> []
      then faqBranch (searchFAQs_express kb q)
      else [])"
    by (auto simp: autoSearchKnowledge_express_def keywordBranches_dispatch)
  have product: "list_ex (str_includes (toLowerCase q)) productKeywords \<and> searchProducts kb q \<noteq> [] \<longrightarrow>
        autoSearchKnowledge host kb q = productBranch host (searchProducts kb q)
        \<and> autoSearchKnowledge_express host kb q = productBranch host (searchProducts kb q)
        \<and> prefix ''PRODUCT SEARCH RESULTS:'' (autoSearchKnowledge host kb q)
        \<and> prefix ''PRODUCT SEARCH RESULTS:'' (autoSearchKnowledge_express host kb q)
        \<and> autoSearchKnowledge host kb q \<noteq> policyBranch pol
        \<and> autoSearchKnowledge host kb q \<noteq> faqBranch fs
        \<and> autoSearchKnowledge_express host kb q \<noteq> policyBranch pol
        \<and> autoSearchKnowledge_express host kb q \<noteq> faqBranch fs"
    using productBranch_header [of host "searchProducts kb q"]
      productBranch_not_policy [of host "searchProducts kb q" pol]
      productBranch_not_faq [of host "searchProducts kb q" fs]
    by (simp add: agent express)
  show ?thesis
    by (rule conjI [OF agent conjI [OF express product]])
qed

theorem router_first_match_wins_witness:
  "list_ex (str_includes (toLowerCase priceAndDelivery)) productKeywords
   \<and> list_ex (str_includes (toLowerCase priceAndDelivery)) policyKeywords
   \<and> searchProducts inlineKnowledge priceAndDelivery \<noteq> []
   \<and> autoSearchKnowledge literalHost inlineKnowledge priceAndDelivery
       = productBranch literalHost (searchProducts inlineKnowledge priceAndDelivery)
   \<and> autoSearchKnowledge_express literalHost inlineKnowledge priceAndDelivery
       = productBranch literalHost (searchProducts inlineKnowledge priceAndDelivery)
   \<and> prefix ''PRODUCT SEARCH RESULTS:'' (autoSearchKnowledge literalHost inlineKnowledge priceAndDelivery)"
proof -
  have a: "list_ex (str_includes (toLowerCase priceAndDelivery)) productKeywords" by code_simp
  have b: "list_ex (str_includes (toLowerCase priceAndDelivery)) policyKeywords" by code_simp
  have c: "searchProducts inlineKnowledge priceAndDelivery \<noteq> []" by code_simp
  from router_first_match_wins [of literalHost inlineKnowledge priceAndDelivery] a c
  have "autoSearchKnowledge literalHost inlineKnowledge priceAndDelivery
       = productBranch literalHost (searchProducts inlineKnowledge priceAndDelivery)
   \<and> autoSearchKnowledge_express literalHost inlineKnowledge priceAndDelivery
       = productBranch literalHost (searchProducts inlineKnowledge priceAndDelivery)
   \<and> prefix ''PRODUCT SEARCH RESULTS:'' (autoSearchKnowledge literalHost inlineKnowledge priceAndDelivery)"
    by blast
  with a b c show ?thesis by blast
qed

section \<open>The sentinel and the instruction suffix\<close>

lemma keywordBranches_nonempty: "keywordBranches host faqSearch kb q = Some out \<Longrightarrow> out \<noteq> []"
  by (auto simp: keywordBranches_dispatch productBranch_def policyBranch_def faqBranch_def
      split: if_splits)

lemma fallbackContext_nonempty: "fallbackContext host kb q \<noteq> []"
  by (simp add: fallbackContext_def Let_def)

lemma autoSearchKnowledge_nonempty: "autoSearchKnowledge host kb q \<noteq> []"
  by (auto simp: autoSearchKnowledge_def keywordBranches_nonempty fallbackContext_nonempty
      split: option.split)

lemma fallbackContext_sentinel:
  assumes "searchProducts kb q = []" and "searchFAQs kb q = []" and "lookupPolicy kb q = None"
  shows "fallbackContext host kb q = ''No relevant information found.''"
  using assms by (simp add: fallbackContext_def)

lemma suffix_last:
  assumes "suffix s c" and "s \<noteq> []"
  shows "last c = last s"
  using assms by (auto simp: suffix_def)

lemma userContent_suffix:
  "suffix instructionSuffix (userContent systemNote userMessage knowledgeContext)
     \<longleftrightarrow> knowledgeContext \<noteq> []"
proof (cases "knowledgeContext = []")
  case True
  have "\<not> suffix instructionSuffix (userContent systemNote userMessage [])"
  proof
    assume "suffix instructionSuffix (userContent systemNote userMessage [])"
    then have "last (userContent systemNote userMessage []) = last instructionSuffix"
      by (rule suffix_last) (simp add: instructionSuffix_def)
    then show False by (simp add: userContent_def instructionSuffix_def)
  qed
  with True show ?thesis by simp
next
  case False
  then have "userContent systemNote userMessage knowledgeContext =
      (systemNote @ (if systemNote \<noteq> [] then NL @ NL else [])
       @ ''CUSTOMER QUESTION: '' @ userMessage @ NL @ NL
       @ ''RELEVANT KNOWLEDGE:'' @ NL @ knowledgeContext @ NL @ NL) @ instructionSuffix"
    by (simp add: userContent_def)
  then have "suffix instructionSuffix (userContent systemNote userMessage knowledgeContext)"
    unfolding suffix_def by blast
  with False show ?thesis by simp
qed

text \<open>
  C1, as amended. When no keyword branch produces output and the three searches of the
  fallback find nothing, the router of agent.ts returns the placeholder text "No relevant
  information found.", which is not empty, and \<open>runAgent\<close> renders it like any other
  context: under the header "RELEVANT KNOWLEDGE:" and followed by the instruction suffix.
  The user content ends with the instruction suffix exactly when the context handed to
  it is not empty, and the context of agent.ts never is. In the copy of api/chat.ts the
  router returns the empty string when no branch produces output, and the user content
  is the customer question alone.
\<close>

theorem sentinel_is_rendered_with_suffix:
  "(keywordBranches host searchFAQs kb q = None \<and> searchProducts kb q = []
      \<and> searchFAQs kb q = [] \<and> lookupPolicy kb q = None \<longrightarrow>
      autoSearchKnowledge host kb q = ''No relevant information found.''
      \<and> apiMessages host kb q history =
          history @ [\<lparr>role = User, m_content =
            (if isLikelyOffTopic q then systemNoteText @ NL @ NL else [])
            @ ''CUSTOMER QUESTION: '' @ q @ NL @ NL @ ''RELEVANT KNOWLEDGE:'' @ NL
            @ ''No relevant information found.'' @ NL @ NL @ instructionSuffix\<rparr>])
   \<and> (suffix instructionSuffix (userContent systemNote userMessage knowledgeContext)
        \<longleftrightarrow> knowledgeContext \<noteq> [])
   \<and> autoSearchKnowledge host kb q \<noteq> []
   \<and> suffix instructionSuffix (m_content (last (apiMessages host kb q history)))
   \<and> (keywordBranches host searchFAQs_express kb q = None \<longrightarrow>
        autoSearchKnowledge_express host kb q = []
        \<and> apiMessages_express host kb q history =
            history @ [\<lparr>role = User, m_content = ''CUSTOMER QUESTION: '' @ q @ NL @ NL\<rparr>])"
proof -
  have sentinel: "keywordBranches host searchFAQs kb q = None \<and> searchProducts kb q = []
      \<and> searchFAQs kb q = [] \<and> lookupPolicy kb q = None \<longrightarrow>
      autoSearchKnowledge host kb q = ''No relevant information found.''
      \<and> apiMessages host kb q history =
          history @ [\<lparr>role = User, m_content =
            (if isLikelyOffTopic q then systemNoteText @ NL @ NL else [])
            @ ''CUSTOMER QUESTION: '' @ q @ NL @ NL @ ''RELEVANT KNOWLEDGE:'' @ NL
            @ ''No relevant information found.'' @ NL @ NL @ instructionSuffix\<rparr>]"
  proof
    assume h: "keywordBranches host searchFAQs kb q = None \<and> searchProducts kb q = []
      \<and> searchFAQs kb q = [] \<and> lookupPolicy kb q = None"
    then have ctx: "autoSearchKnowledge host kb q = ''No relevant information found.''"
      by (simp add: autoSearchKnowledge_def fallbackContext_sentinel)
    have "systemNoteText \<noteq> []" by (simp add: systemNoteText_def)
    then have "apiMessages host kb q history =
          history @ [\<lparr>role = User, m_content =
            (if isLikelyOffTopic q then systemNoteText @ NL @ NL else [])
            @ ''CUSTOMER QUESTION: '' @ q @ NL @ NL @ ''RELEVANT KNOWLEDGE:'' @ NL
            @ ''No relevant information found.'' @ NL @ NL @ instructionSuffix\<rparr>]"
      by (simp add: apiMessages_shape ctx userContent_def)
    with ctx show "autoSearchKnowledge host kb q = ''No relevant information found.''
      \<and> apiMessages host kb q history =
          history @ [\<lparr>role = User, m_content =
            (if isLikelyOffTopic q then systemNoteText @ NL @ NL else [])
            @ ''CUSTOMER QUESTION: '' @ q @ NL @ NL @ ''RELEVANT KNOWLEDGE:'' @ NL
            @ ''No relevant information found.'' @ NL @ NL @ instructionSuffix\<rparr>]"
      by (rule conjI)
  qed
  have always: "suffix instructionSuffix (m_content (last (apiMessages host kb q history)))"
    by (simp add: apiMessages_shape userContent_suffix autoSearchKnowledge_nonempty)
  have express: "keywordBranches host searchFAQs_express kb q = None \<longrightarrow>
        autoSearchKnowledge_express host kb q = []
        \<and> apiMessages_express host kb q history =
            history @ [\<lparr>role = User, m_content = ''CUSTOMER QUESTION: '' @ q @ NL @ NL\<rparr>]"
    by (simp add: autoSearchKnowledge_express_def apiMessages_express_def copied_history
        userContent_def)
  show ?thesis
    by (rule conjI [OF sentinel conjI [OF userContent_suffix
          conjI [OF autoSearchKnowledge_nonempty conjI [OF always express]]]])
qed

lemma nothing_found:
  "keywordBranches literalHost searchFAQs inlineKnowledge nothingToFind = None
   \<and> searchProducts inlineKnowledge nothingToFind = []
   \<and> searchFAQs inlineKnowledge nothingToFind = []
   \<and> lookupPolicy inlineKnowledge nothingToFind = None"
  by code_simp

lemma nothing_flagged: "\<not> isLikelyOffTopic nothingToFind"
  by code_simp

theorem sentinel_is_rendered_with_suffix_witness:
  "keywordBranches literalHost searchFAQs inlineKnowledge nothingToFind = None
   \<and> autoSearchKnowledge literalHost inlineKnowledge nothingToFind = ''No relevant information found.''
   \<and> apiMessages literalHost inlineKnowledge nothingToFind [] =
       [\<lparr>role = User, m_content =
            ''CUSTOMER QUESTION: zzzz qqqq'' @ NL @ NL @ ''RELEVANT KNOWLEDGE:'' @ NL
            @ ''No relevant information found.'' @ NL @ NL @ instructionSuffix\<rparr>]
   \<and> autoSearchKnowledge_express literalHost inlineKnowledge nothingToFind = []"
proof -
  have express: "keywordBranches literalHost searchFAQs_express inlineKnowledge nothingToFind = None"
    by code_simp
  from sentinel_is_rendered_with_suffix [of literalHost inlineKnowledge nothingToFind "[]"]
    nothing_found nothing_flagged express
  show ?thesis by (simp add: nothingToFind_def)
qed

text \<open>
  C1 as stated fails in agent.ts: nothing is found for the utterance, and the user content
  sent to the provider still ends with the instruction suffix.
\<close>

theorem sentinel_keeps_suffix:
  "keywordBranches literalHost searchFAQs inlineKnowledge nothingToFind = None
   \<and> searchProducts inlineKnowledge nothingToFind = []
   \<and> searchFAQs inlineKnowledge nothingToFind = []
   \<and> lookupPolicy inlineKnowledge nothingToFind = None
   \<and> m_content (last (apiMessages literalHost inlineKnowledge nothingToFind []))
       = ''CUSTOMER QUESTION: zzzz qqqq'' @ NL @ NL @ ''RELEVANT KNOWLEDGE:'' @ NL
         @ ''No relevant information found.'' @ NL @ NL
         @ ''Please answer based on this information.''"
proof -
  have "autoSearchKnowledge literalHost inlineKnowledge nothingToFind
          = ''No relevant information found.''"
    using nothing_found by (simp add: autoSearchKnowledge_def fallbackContext_sentinel)
  with nothing_flagged have "m_content (last (apiMessages literalHost inlineKnowledge nothingToFind []))
       = ''CUSTOMER QUESTION: zzzz qqqq'' @ NL @ NL @ ''RELEVANT KNOWLEDGE:'' @ NL
         @ ''No relevant information found.'' @ NL @ NL
         @ ''Please answer based on this information.''"
    by (simp add: apiMessages_shape userContent_def instructionSuffix_def nothingToFind_def)
  with nothing_found show ?thesis by blast
qed

section \<open>Sessions\<close>

lemma getOrCreate_session:
  assumes "getOrCreate t sid store = (session, store')"
  shows "messages session = storedMessages store sid \<and> store' = store(sid \<mapsto> session)"
proof (cases "store sid")
  case None
  with assms show ?thesis by (auto simp: getOrCreate_def storedMessages_def Let_def)
next
  case (Some s)
  with assms have "session = s" and "store' = store" by (auto simp: getOrCreate_def)
  with Some show ?thesis by (auto simp: storedMessages_def map_upd_triv)
qed

lemma storedMessages_upd:
  "storedMessages (store(sid \<mapsto> s)) sid' = (if sid' = sid then messages s else storedMessages store sid')"
  by (simp add: storedMessages_def)

lemma pushTurn_stored:
  assumes "store sid \<noteq> None"
  shows "storedMessages (pushTurn sid u a store) sid' =
     (if sid' = sid
      then storedMessages store sid @ [\<lparr>role = User, m_content = u\<rparr>, \<lparr>role = Assistant, m_content = a\<rparr>]
      else storedMessages store sid')"
  using assms by (auto simp: pushTurn_def storedMessages_def)

text \<open>
  Up to the await, the Express route and the serverless handler find or create the
  session, leave every stored message as it is, and hand the agent the first 500
  characters of the message with the stored history.
\<close>

lemma express_chat_begin_await:
  assumes "sessionId req \<noteq> []" and "message req \<noteq> []" and "apiKey \<noteq> []"
  shows "\<exists>store'. express_chat_begin apiKey tCreate tActive req store =
            (Await req (take 500 (message req)) (storedMessages store (sessionId req)), store')
          \<and> store' (sessionId req) \<noteq> None
          \<and> (\<forall>sid. storedMessages store' sid = storedMessages store sid)"
proof -
  obtain session store1 where g: "getOrCreate tCreate (sessionId req) store = (session, store1)"
    by (cases "getOrCreate tCreate (sessionId req) store")
  note s = getOrCreate_session [OF g]
  let ?store' = "store1(sessionId req \<mapsto> session\<lparr>lastActive := tActive\<rparr>)"
  have "express_chat_begin apiKey tCreate tActive req store =
          (Await req (take 500 (message req)) (storedMessages store (sessionId req)), ?store')"
    using assms g s by (simp add: express_chat_begin_def)
  moreover have "\<forall>sid. storedMessages ?store' sid = storedMessages store sid"
    using s by (simp add: storedMessages_def)
  ultimately show ?thesis by auto
qed

lemma handler_begin_await:
  assumes "sessionId req \<noteq> []" and "message req \<noteq> []" and "apiKey \<noteq> []"
  shows "\<exists>store'. handler_begin apiKey tCreate tActive POST (Inr req) store =
            (Await req (take 500 (message req)) (storedMessages store (sessionId req)), store')
          \<and> store' (sessionId req) \<noteq> None
          \<and> (\<forall>sid. storedMessages store' sid = storedMessages store sid)"
proof -
  obtain session store1 where g: "getOrCreate tCreate (sessionId req) store = (session, store1)"
    by (cases "getOrCreate tCreate (sessionId req) store")
  note s = getOrCreate_session [OF g]
  let ?store' = "store1(sessionId req \<mapsto> session\<lparr>lastActive := tActive\<rparr>)"
  have "handler_begin apiKey tCreate tActive POST (Inr req) store =
          (Await req (take 500 (message req)) (storedMessages store (sessionId req)), ?store')"
    using assms g s by (simp add: handler_begin_def)
  moreover have "\<forall>sid. storedMessages ?store' sid = storedMessages store sid"
    using s by (simp add: storedMessages_def)
  ultimately show ?thesis by auto
qed

text \<open>
  server.ts, with the rate limit passed: at the limit of user turns the request is
  answered with 400 before the await; below it the agent gets the truncated message and
  the stored history.
\<close>

lemma server_chat_begin_limit:
  assumes "checkRateLimit tRate ip (rateLimit st) = (True, rl)"
    and "sessionId req \<noteq> []" and "message req \<noteq> []"
    and "userTurns (storedMessages (sessions st) (sessionId req)) \<ge> MAX_MESSAGES_PER_SESSION"
  shows "\<exists>st'. server_chat_begin tRate tCreate tActive ip (Inr req) st =
            (Respond \<lparr>status = 400, body = ErrorBody
                ''Conversation limit reached. Please contact support directly.''\<rparr>, st')
          \<and> (\<forall>sid. storedMessages (sessions st') sid = storedMessages (sessions st) sid)"
proof -
  obtain session store1 where g: "getOrCreate tCreate (sessionId req) (sessions st) = (session, store1)"
    by (cases "getOrCreate tCreate (sessionId req) (sessions st)")
  note s = getOrCreate_session [OF g]
  have "server_chat_begin tRate tCreate tActive ip (Inr req) st =
            (Respond \<lparr>status = 400, body = ErrorBody
                ''Conversation limit reached. Please contact support directly.''\<rparr>,
             \<lparr>sessions = store1, rateLimit = rl\<rparr>)"
    using assms g s by (simp add: server_chat_begin_def userTurns_def)
  moreover have "\<forall>sid. storedMessages store1 sid = storedMessages (sessions st) sid"
    using s by (simp add: storedMessages_def)
  ultimately show ?thesis by auto
qed

lemma server_chat_begin_await:
  assumes "checkRateLimit tRate ip (rateLimit st) = (True, rl)"
    and "sessionId req \<noteq> []" and "message req \<noteq> []"
    and "userTurns (storedMessages (sessions st) (sessionId req)) < MAX_MESSAGES_PER_SESSION"
  shows "\<exists>st'. server_chat_begin tRate tCreate tActive ip (Inr req) st =
            (Await req (take MAX_MESSAGE_LENGTH (message req))
               (storedMessages (sessions st) (sessionId req)), st')
          \<and> sessions st' (sessionId req) \<noteq> None
          \<and> (\<forall>sid. storedMessages (sessions st') sid = storedMessages (sessions st) sid)"
proof -
  obtain session store1 where g: "getOrCreate tCreate (sessionId req) (sessions st) = (session, store1)"
    by (cases "getOrCreate tCreate (sessionId req) (sessions st)")
  note s = getOrCreate_session [OF g]
  let ?st' = "\<lparr>sessions = store1(sessionId req \<mapsto> session\<lparr>lastActive := tActive\<rparr>), rateLimit = rl\<rparr>"
  have "server_chat_begin tRate tCreate tActive ip (Inr req) st =
            (Await req (take MAX_MESSAGE_LENGTH (message req))
               (storedMessages (sessions st) (sessionId req)), ?st')"
    using assms g s by (simp add: server_chat_begin_def userTurns_def)
  moreover have "\<forall>sid. storedMessages (sessions ?st') sid = storedMessages (sessions st) sid"
    using s by (simp add: storedMessages_def)
  ultimately show ?thesis by auto
qed

text \<open>
  A whole turn, for any agent: the response and the stored messages after it, from what
  the agent answers to the call the handler makes.
\<close>

lemma express_chat_turn:
  assumes "sessionId req \<noteq> []" and "message req \<noteq> []" and "apiKey \<noteq> []"
    and "agent (take 500 (message req)) (storedMessages store (sessionId req)) w = (response, w')"
  shows "\<exists>store'. express_chat agent apiKey tCreate tActive req store w =
            (if errorSet response
             then \<lparr>status = 500, body = ErrorBody (the (r_error response))\<rparr>
             else \<lparr>status = 200, body = ChatBody (r_content response) (sessionId req)\<rparr>,
             store', w')
          \<and> (\<forall>sid. storedMessages store' sid =
                (if errorSet response \<or> sid \<noteq> sessionId req then storedMessages store sid
                 else storedMessages store sid
                      @ [\<lparr>role = User, m_content = message req\<rparr>,
                         \<lparr>role = Assistant, m_content = r_content response\<rparr>]))"
proof -
  from express_chat_begin_await [OF assms(1-3), of tCreate tActive store]
  obtain store1 where b: "express_chat_begin apiKey tCreate tActive req store =
            (Await req (take 500 (message req)) (storedMessages store (sessionId req)), store1)"
    and present: "store1 (sessionId req) \<noteq> None"
    and same: "\<forall>sid. storedMessages store1 sid = storedMessages store sid"
    by blast
  show ?thesis
  proof (cases "errorSet response")
    case True
    then have "express_chat agent apiKey tCreate tActive req store w =
        (\<lparr>status = 500, body = ErrorBody (the (r_error response))\<rparr>, store1, w')"
      using b assms(4) by (simp add: express_chat_def express_chat_end_def)
    with True same show ?thesis by auto
  next
    case False
    let ?store' = "pushTurn (sessionId req) (message req) (r_content response) store1"
    from False have "express_chat agent apiKey tCreate tActive req store w =
        (\<lparr>status = 200, body = ChatBody (r_content response) (sessionId req)\<rparr>, ?store', w')"
      using b assms(4) by (simp add: express_chat_def express_chat_end_def)
    moreover have "\<forall>sid. storedMessages ?store' sid =
                (if sid \<noteq> sessionId req then storedMessages store sid
                 else storedMessages store sid
                      @ [\<lparr>role = User, m_content = message req\<rparr>,
                         \<lparr>role = Assistant, m_content = r_content response\<rparr>])"
      using same present by (simp add: pushTurn_stored)
    ultimately show ?thesis using False by auto
  qed
qed

lemma handler_turn:
  assumes "sessionId req \<noteq> []" and "message req \<noteq> []" and "apiKey \<noteq> []"
    and "agent (take 500 (message req)) (storedMessages store (sessionId req)) w = (response, w')"
  shows "\<exists>store'. handler agent apiKey tCreate tActive POST (Inr req) store w =
            (if errorSet response
             then \<lparr>status = 500, body = ErrorBody (the (r_error response))\<rparr>
             else \<lparr>status = 200, body = ChatBody (r_content response) (sessionId req)\<rparr>,
             store', w')
          \<and> (\<forall>sid. storedMessages store' sid =
                (if errorSet response \<or> sid \<noteq> sessionId req then storedMessages store sid
                 else storedMessages store sid
                      @ [\<lparr>role = User, m_content = message req\<rparr>,
                         \<lparr>role = Assistant, m_content = r_content response\<rparr>]))"
proof -
  from handler_begin_await [OF assms(1-3), of tCreate tActive store]
  obtain store1 where b: "handler_begin apiKey tCreate tActive POST (Inr req) store =
            (Await req (take 500 (message req)) (storedMessages store (sessionId req)), store1)"
    and present: "store1 (sessionId req) \<noteq> None"
    and same: "\<forall>sid. storedMessages store1 sid = storedMessages store sid"
    by blast
  show ?thesis
  proof (cases "errorSet response")
    case True
    then have "handler agent apiKey tCreate tActive POST (Inr req) store w =
        (\<lparr>status = 500, body = ErrorBody (the (r_error response))\<rparr>, store1, w')"
      using b assms(4) by (simp add: handler_def handler_end_def)
    with True same show ?thesis by auto
  next
    case False
    let ?store' = "pushTurn (sessionId req) (message req) (r_content response) store1"
    from False have "handler agent apiKey tCreate tActive POST (Inr req) store w =
        (\<lparr>status = 200, body = ChatBody (r_content response) (sessionId req)\<rparr>, ?store', w')"
      using b assms(4) by (simp add: handler_def handler_end_def)
    moreover have "\<forall>sid. storedMessages ?store' sid =
                (if sid \<noteq> sessionId req then storedMessages store sid
                 else storedMessages store sid
                      @ [\<lparr>role = User, m_content = message req\<rparr>,
                         \<lparr>role = Assistant, m_content = r_content response\<rparr>])"
      using same present by (simp add: pushTurn_stored)
    ultimately show ?thesis using False by auto
  qed
qed

lemma server_chat_turn:
  assumes "checkRateLimit tRate ip (rateLimit st) = (True, rl)"
    and "sessionId req \<noteq> []" and "message req \<noteq> []"
    and "userTurns (storedMessages (sessions st) (sessionId req)) < MAX_MESSAGES_PER_SESSION"
    and "agent (take MAX_MESSAGE_LENGTH (message req))
           (storedMessages (sessions st) (sessionId req)) w = (response, w')"
  shows "\<exists>st'. server_chat agent tRate tCreate tActive ip (Inr req) st w =
            (if errorSet response
             then \<lparr>status = 500, body = ErrorBody (the (r_error response))\<rparr>
             else \<lparr>status = 200, body = ChatBody (r_content response) (sessionId req)\<rparr>,
             st', w')
          \<and> (\<forall>sid. storedMessages (sessions st') sid =
                (if errorSet response \<or> sid \<noteq> sessionId req then storedMessages (sessions st) sid
                 else storedMessages (sessions st) sid
                      @ [\<lparr>role = User, m_content = take MAX_MESSAGE_LENGTH (message req)\<rparr>,
                         \<lparr>role = Assistant, m_content = r_content response\<rparr>]))"
proof -
  from server_chat_begin_await [OF assms(1-4), of tCreate tActive]
  obtain st1 where b: "server_chat_begin tRate tCreate tActive ip (Inr req) st =
            (Await req (take MAX_MESSAGE_LENGTH (message req))
               (storedMessages (sessions st) (sessionId req)), st1)"
    and present: "sessions st1 (sessionId req) \<noteq> None"
    and same: "\<forall>sid. storedMessages (sessions st1) sid = storedMessages (sessions st) sid"
    by blast
  show ?thesis
  proof (cases "errorSet response")
    case True
    then have "server_chat agent tRate tCreate tActive ip (Inr req) st w =
        (\<lparr>status = 500, body = ErrorBody (the (r_error response))\<rparr>, st1, w')"
      using b assms(5) by (simp add: server_chat_def server_chat_end_def)
    with True same show ?thesis by auto
  next
    case False
    let ?st' = "st1\<lparr>sessions := pushTurn (sessionId req) (take MAX_MESSAGE_LENGTH (message req))
                   (r_content response) (sessions st1)\<rparr>"
    from False have "server_chat agent tRate tCreate tActive ip (Inr req) st w =
        (\<lparr>status = 200, body = ChatBody (r_content response) (sessionId req)\<rparr>, ?st', w')"
      using b assms(5) by (simp add: server_chat_def server_chat_end_def Let_def)
    moreover have "\<forall>sid. storedMessages (sessions ?st') sid =
                (if sid \<noteq> sessionId req then storedMessages (sessions st) sid
                 else storedMessages (sessions st) sid
                      @ [\<lparr>role = User, m_content = take MAX_MESSAGE_LENGTH (message req)\<rparr>,
                         \<lparr>role = Assistant, m_content = r_content response\<rparr>])"
      using same present by (simp add: pushTurn_stored)
    ultimately show ?thesis using False by auto
  qed
qed

lemma server_chat_limit:
  assumes "checkRateLimit tRate ip (rateLimit st) = (True, rl)"
    and "sessionId req \<noteq> []" and "message req \<noteq> []"
    and "userTurns (storedMessages (sessions st) (sessionId req)) \<ge> MAX_MESSAGES_PER_SESSION"
  shows "\<exists>st'. server_chat agent tRate tCreate tActive ip (Inr req) st w =
            (\<lparr>status = 400, body = ErrorBody
                ''Conversation limit reached. Please contact support directly.''\<rparr>, st', w)
          \<and> (\<forall>sid. storedMessages (sessions st') sid = storedMessages (sessions st) sid)"
proof -
  from server_chat_begin_limit [OF assms, of tCreate tActive]
  obtain st1 where "server_chat_begin tRate tCreate tActive ip (Inr req) st =
            (Respond \<lparr>status = 400, body = ErrorBody
                ''Conversation limit reached. Please contact support directly.''\<rparr>, st1)"
    and "\<forall>sid. storedMessages (sessions st1) sid = storedMessages (sessions st) sid"
    by blast
  then show ?thesis by (simp add: server_chat_def)
qed

section \<open>Turns, limits and expiry\<close>


text \<open>
  What \<open>runAgent\<close> makes of the provider's outcome: every failure that
  \<open>callDeepSeekAPI\<close> raises itself, and every rejection with a message, sets the error.
\<close>

lemma runAgent_response:
  "fst (runAgent host kb provider promptFile userMessage history log) =
     (case provider (\<lparr>role = System, m_content = loadSystemPrompt promptFile\<rparr>
                      # apiMessages host kb userMessage history) of
        Rejected (Error msg) \<Rightarrow> \<lparr>r_content = [], r_error = Some msg\<rparr>
      | Rejected NonError \<Rightarrow> \<lparr>r_content = [], r_error = Some ''Unknown error occurred''\<rparr>
      | NotOk st txt \<Rightarrow>
          \<lparr>r_content = [],
           r_error = Some (''DeepSeek API error: '' @ decimal st @ '' - '' @ txt)\<rparr>
      | Parsed None \<Rightarrow> \<lparr>r_content = [], r_error = Some ''No response from DeepSeek API''\<rparr>
      | Parsed (Some c) \<Rightarrow> \<lparr>r_content = c, r_error = None\<rparr>)"
  by (simp add: runAgent_def callDeepSeekAPI_def agentResult_def Let_def
      split: Reply.split Thrown.split option.split)

lemma runAgent_failure_sets_error:
  assumes "provider (\<lparr>role = System, m_content = loadSystemPrompt promptFile\<rparr>
                      # apiMessages host kb userMessage history) = outcome"
    and "outcome = NotOk st txt \<or> outcome = Parsed None \<or> outcome = Rejected NonError
         \<or> (outcome = Rejected (Error msg) \<and> msg \<noteq> [])"
  shows "errorSet (fst (runAgent host kb provider promptFile userMessage history log))"
  using assms by (auto simp: runAgent_response errorSet_def)









lemma ok_express:
  "runAgent_express host kb okProvider userMessage history log =
     (\<lparr>r_content = ''ok'', r_error = None\<rparr>,
      log @ [\<lparr>role = System, m_content = expressPersona\<rparr>
               # apiMessages_express host kb userMessage history])"
  by (simp add: runAgent_express_def callDeepSeekAPI_def agentResult_def okProvider_def Let_def)

lemma ok_agent:
  "runAgent host kb okProvider promptFile userMessage history log =
     (\<lparr>r_content = ''ok'', r_error = None\<rparr>,
      log @ [\<lparr>role = System, m_content = loadSystemPrompt promptFile\<rparr>
               # apiMessages host kb userMessage history])"
  by (simp add: runAgent_def callDeepSeekAPI_def agentResult_def okProvider_def Let_def)

text \<open>
  C10. In the Express route and in the serverless handler the agent is handed the first
  500 characters of the message, and after a successful turn the user message appended
  to the session is the whole message. So for a message of more than 500 characters the
  stored entry is longer than the maximum message length and is not the text the agent
  was given. The handler of server.ts appends the truncated message.
\<close>

theorem raw_message_stored_beyond_limit:
  "(sessionId req \<noteq> [] \<and> 500 < length (message req) \<and> apiKey \<noteq> []
      \<and> agent (take 500 (message req)) (storedMessages store (sessionId req)) w = (response, w')
      \<and> \<not> errorSet response \<longrightarrow>
      fst (express_chat_begin apiKey tCreate tActive req store) =
        Await req (take 500 (message req)) (storedMessages store (sessionId req))
      \<and> fst (handler_begin apiKey tCreate tActive POST (Inr req) store) =
        Await req (take 500 (message req)) (storedMessages store (sessionId req))
      \<and> (case express_chat agent apiKey tCreate tActive req store w of
           (r, store', w'') \<Rightarrow>
             status r = 200
             \<and> storedMessages store' (sessionId req) =
                 storedMessages store (sessionId req)
                 @ [\<lparr>role = User, m_content = message req\<rparr>,
                    \<lparr>role = Assistant, m_content = r_content response\<rparr>])
      \<and> (case handler agent apiKey tCreate tActive POST (Inr req) store w of
           (r, store', w'') \<Rightarrow>
             status r = 200
             \<and> storedMessages store' (sessionId req) =
                 storedMessages store (sessionId req)
                 @ [\<lparr>role = User, m_content = message req\<rparr>,
                    \<lparr>role = Assistant, m_content = r_content response\<rparr>])
      \<and> MAX_MESSAGE_LENGTH < length (message req)
      \<and> message req \<noteq> take 500 (message req))
   \<and> (checkRateLimit tRate ip (rateLimit st) = (True, rl)
      \<and> sessionId req \<noteq> [] \<and> message req \<noteq> []
      \<and> userTurns (storedMessages (sessions st) (sessionId req)) < MAX_MESSAGES_PER_SESSION
      \<and> agent (take MAX_MESSAGE_LENGTH (message req))
           (storedMessages (sessions st) (sessionId req)) w = (response, w')
      \<and> \<not> errorSet response \<longrightarrow>
      (case server_chat agent tRate tCreate tActive ip (Inr req) st w of
         (r, st', w'') \<Rightarrow>
           status r = 200
           \<and> storedMessages (sessions st') (sessionId req) =
               storedMessages (sessions st) (sessionId req)
               @ [\<lparr>role = User, m_content = take MAX_MESSAGE_LENGTH (message req)\<rparr>,
                  \<lparr>role = Assistant, m_content = r_content response\<rparr>])
      \<and> length (take MAX_MESSAGE_LENGTH (message req)) \<le> MAX_MESSAGE_LENGTH)"
proof (intro conjI impI)
  assume h: "sessionId req \<noteq> [] \<and> 500 < length (message req) \<and> apiKey \<noteq> []
      \<and> agent (take 500 (message req)) (storedMessages store (sessionId req)) w = (response, w')
      \<and> \<not> errorSet response"
  then have a: "sessionId req \<noteq> []" "message req \<noteq> []" "apiKey \<noteq> []"
    "agent (take 500 (message req)) (storedMessages store (sessionId req)) w = (response, w')"
    by auto
  from express_chat_begin_await [OF a(1-3), of tCreate tActive store]
  show "fst (express_chat_begin apiKey tCreate tActive req store) =
        Await req (take 500 (message req)) (storedMessages store (sessionId req))"
    by auto
  from handler_begin_await [OF a(1-3), of tCreate tActive store]
  show "fst (handler_begin apiKey tCreate tActive POST (Inr req) store) =
        Await req (take 500 (message req)) (storedMessages store (sessionId req))"
    by auto
  from express_chat_turn [where agent = agent and store = store and w = w and tCreate = tCreate
      and tActive = tActive, OF a] h
  show "case express_chat agent apiKey tCreate tActive req store w of
           (r, store', w'') \<Rightarrow>
             status r = 200
             \<and> storedMessages store' (sessionId req) =
                 storedMessages store (sessionId req)
                 @ [\<lparr>role = User, m_content = message req\<rparr>,
                    \<lparr>role = Assistant, m_content = r_content response\<rparr>]"
    by auto
  from handler_turn [where agent = agent and store = store and w = w and tCreate = tCreate
      and tActive = tActive, OF a] h
  show "case handler agent apiKey tCreate tActive POST (Inr req) store w of
           (r, store', w'') \<Rightarrow>
             status r = 200
             \<and> storedMessages store' (sessionId req) =
                 storedMessages store (sessionId req)
                 @ [\<lparr>role = User, m_content = message req\<rparr>,
                    \<lparr>role = Assistant, m_content = r_content response\<rparr>]"
    by auto
  from h show "MAX_MESSAGE_LENGTH < length (message req)"
    by (simp add: MAX_MESSAGE_LENGTH_def)
  from h have "length (take 500 (message req)) \<noteq> length (message req)" by simp
  then show "message req \<noteq> take 500 (message req)" by metis
next
  assume h: "checkRateLimit tRate ip (rateLimit st) = (True, rl)
      \<and> sessionId req \<noteq> [] \<and> message req \<noteq> []
      \<and> userTurns (storedMessages (sessions st) (sessionId req)) < MAX_MESSAGES_PER_SESSION
      \<and> agent (take MAX_MESSAGE_LENGTH (message req))
           (storedMessages (sessions st) (sessionId req)) w = (response, w')
      \<and> \<not> errorSet response"
  then have a: "checkRateLimit tRate ip (rateLimit st) = (True, rl)"
    "sessionId req \<noteq> []" "message req \<noteq> []"
    "userTurns (storedMessages (sessions st) (sessionId req)) < MAX_MESSAGES_PER_SESSION"
    "agent (take MAX_MESSAGE_LENGTH (message req))
           (storedMessages (sessions st) (sessionId req)) w = (response, w')"
    by simp_all
  from server_chat_turn [where agent = agent and st = st and w = w and tCreate = tCreate
      and tActive = tActive, OF a] h
  show "case server_chat agent tRate tCreate tActive ip (Inr req) st w of
         (r, st', w'') \<Rightarrow>
           status r = 200
           \<and> storedMessages (sessions st') (sessionId req) =
               storedMessages (sessions st) (sessionId req)
               @ [\<lparr>role = User, m_content = take MAX_MESSAGE_LENGTH (message req)\<rparr>,
                  \<lparr>role = Assistant, m_content = r_content response\<rparr>]"
    by auto
  show "length (take MAX_MESSAGE_LENGTH (message req)) \<le> MAX_MESSAGE_LENGTH"
    by simp
qed

theorem raw_message_stored_beyond_limit_witness:
  "length (message longRequest) = 501
   \<and> fst (express_chat_begin ''sk'' 1 2 longRequest shortStore) =
        Await longRequest (take 500 (message longRequest)) (storedMessages shortStore ''s1'')
   \<and> storedMessages (fst (snd (express_chat (runAgent_express literalHost inlineKnowledge okProvider)
                  ''sk'' 1 2 longRequest shortStore []))) ''s1''
       = storedMessages shortStore ''s1''
         @ [\<lparr>role = User, m_content = message longRequest\<rparr>, \<lparr>role = Assistant, m_content = ''ok''\<rparr>]
   \<and> storedMessages (fst (snd (handler (runAgent literalHost inlineKnowledge okProvider None)
                  ''sk'' 1 2 POST (Inr longRequest) shortStore []))) ''s1''
       = storedMessages shortStore ''s1''
         @ [\<lparr>role = User, m_content = message longRequest\<rparr>, \<lparr>role = Assistant, m_content = ''ok''\<rparr>]
   \<and> storedMessages (sessions (fst (snd (server_chat (runAgent literalHost inlineKnowledge okProvider None)
                  1 1 2 ''ip'' (Inr longRequest) \<lparr>sessions = shortStore, rateLimit = Map.empty\<rparr> []))))
        ''s1''
       = storedMessages shortStore ''s1''
         @ [\<lparr>role = User, m_content = take 500 (message longRequest)\<rparr>,
            \<lparr>role = Assistant, m_content = ''ok''\<rparr>]"
proof -
  let ?ax = "runAgent_express literalHost inlineKnowledge okProvider"
  let ?ag = "runAgent literalHost inlineKnowledge okProvider None"
  let ?st = "\<lparr>sessions = shortStore, rateLimit = Map.empty\<rparr>"
  let ?ok = "\<lparr>r_content = ''ok'', r_error = None\<rparr>"
  have len: "length (message longRequest) = 501" by (simp add: longRequest_def)
  have sid: "sessionId longRequest = ''s1''" by (simp add: longRequest_def)
  have fields: "sessionId longRequest \<noteq> []" "message longRequest \<noteq> []"
    using len sid by auto
  have noerr: "\<not> errorSet ?ok" by (simp add: errorSet_def)
  have rate: "checkRateLimit 1 ''ip'' (rateLimit ?st) = (True, [''ip'' \<mapsto> \<lparr>count = 1, resetTime = 60001\<rparr>])"
    by (simp add: checkRateLimit_def)
  have turns: "userTurns (storedMessages (sessions ?st) (sessionId longRequest)) < MAX_MESSAGES_PER_SESSION"
    by (simp add: userTurns_def storedMessages_def shortStore_def sid MAX_MESSAGES_PER_SESSION_def)
  from raw_message_stored_beyond_limit [where agent = ?ax and req = longRequest and apiKey = "''sk''"
      and store = shortStore and w = "[]" and tCreate = 1 and tActive = 2 and response = ?ok]
    fields len noerr ok_express [of literalHost inlineKnowledge]
  have x: "fst (express_chat_begin ''sk'' 1 2 longRequest shortStore) =
        Await longRequest (take 500 (message longRequest)) (storedMessages shortStore ''s1'')
     \<and> storedMessages (fst (snd (express_chat ?ax ''sk'' 1 2 longRequest shortStore []))) ''s1''
       = storedMessages shortStore ''s1''
         @ [\<lparr>role = User, m_content = message longRequest\<rparr>, \<lparr>role = Assistant, m_content = ''ok''\<rparr>]"
    by (simp add: case_prod_beta sid)
  from raw_message_stored_beyond_limit [where agent = ?ag and req = longRequest and apiKey = "''sk''"
      and store = shortStore and w = "[]" and tCreate = 1 and tActive = 2 and response = ?ok
      and st = ?st and tRate = 1 and ip = "''ip''"
      and rl = "[''ip'' \<mapsto> \<lparr>count = 1, resetTime = 60001\<rparr>]"]
    fields len noerr ok_agent [of literalHost inlineKnowledge] rate turns
  have g: "storedMessages (fst (snd (handler ?ag ''sk'' 1 2 POST (Inr longRequest) shortStore []))) ''s1''
       = storedMessages shortStore ''s1''
         @ [\<lparr>role = User, m_content = message longRequest\<rparr>, \<lparr>role = Assistant, m_content = ''ok''\<rparr>]
     \<and> storedMessages (sessions (fst (snd (server_chat ?ag 1 1 2 ''ip'' (Inr longRequest) ?st [])))) ''s1''
       = storedMessages shortStore ''s1''
         @ [\<lparr>role = User, m_content = take 500 (message longRequest)\<rparr>,
            \<lparr>role = Assistant, m_content = ''ok''\<rparr>]"
    by (simp add: case_prod_beta sid MAX_MESSAGE_LENGTH_def)
  from len x g show ?thesis by simp
qed

lemma sessionCleanup_sessions:
  "sessions (sessionCleanup now1 now2 st) sid =
     (case sessions st sid of
        None \<Rightarrow> None
      | Some session \<Rightarrow>
          if now1 - lastActive session > SESSION_TIMEOUT_MS then None else Some session)"
proof -
  have "(lastActive session < now1 - SESSION_TIMEOUT_MS)
          = (now1 - lastActive session > SESSION_TIMEOUT_MS)" for session
    by linarith
  then show ?thesis by (simp add: sessionCleanup_def split: option.split)
qed

text \<open>
  C8. A session whose idle time, the sweep's reading of the clock minus \<open>lastActive\<close>,
  exceeds the timeout is not in the store after the sweep of server.ts. A request with
  its id that then passes the rate limit starts a new session: the agent is handed the
  empty history, and after a successful turn the session holds that turn alone. A session
  that is not idle for longer than the timeout stays.
\<close>

theorem idle_session_swept_then_fresh:
  "(sessions st sid = Some session \<and> now1 - lastActive session > SESSION_TIMEOUT_MS \<longrightarrow>
      sessions (sessionCleanup now1 now2 st) sid = None
      \<and> storedMessages (sessions (sessionCleanup now1 now2 st)) sid = []
      \<and> (checkRateLimit tRate ip (rateLimit (sessionCleanup now1 now2 st)) = (True, rl)
           \<and> sessionId req = sid \<and> sid \<noteq> [] \<and> message req \<noteq> [] \<longrightarrow>
           fst (server_chat_begin tRate tCreate tActive ip (Inr req) (sessionCleanup now1 now2 st))
             = Await req (take MAX_MESSAGE_LENGTH (message req)) []
           \<and> (agent (take MAX_MESSAGE_LENGTH (message req)) [] w = (response, w')
                \<and> \<not> errorSet response \<longrightarrow>
                (case server_chat agent tRate tCreate tActive ip (Inr req)
                        (sessionCleanup now1 now2 st) w of
                   (r, st', w'') \<Rightarrow>
                     status r = 200
                     \<and> storedMessages (sessions st') sid =
                         [\<lparr>role = User, m_content = take MAX_MESSAGE_LENGTH (message req)\<rparr>,
                          \<lparr>role = Assistant, m_content = r_content response\<rparr>]))))
   \<and> (sessions st sid = Some session \<and> \<not> now1 - lastActive session > SESSION_TIMEOUT_MS \<longrightarrow>
        sessions (sessionCleanup now1 now2 st) sid = Some session)"
proof (intro conjI impI)
  assume idle: "sessions st sid = Some session \<and> now1 - lastActive session > SESSION_TIMEOUT_MS"
  then show gone: "sessions (sessionCleanup now1 now2 st) sid = None"
    by (simp add: sessionCleanup_sessions)
  then show empty: "storedMessages (sessions (sessionCleanup now1 now2 st)) sid = []"
    by (simp add: storedMessages_def)
  assume h: "checkRateLimit tRate ip (rateLimit (sessionCleanup now1 now2 st)) = (True, rl)
           \<and> sessionId req = sid \<and> sid \<noteq> [] \<and> message req \<noteq> []"
  let ?st = "sessionCleanup now1 now2 st"
  from h empty have a: "checkRateLimit tRate ip (rateLimit ?st) = (True, rl)"
    "sessionId req \<noteq> []" "message req \<noteq> []"
    "userTurns (storedMessages (sessions ?st) (sessionId req)) < MAX_MESSAGES_PER_SESSION"
    by (auto simp: userTurns_def MAX_MESSAGES_PER_SESSION_def)
  from h empty have hist: "storedMessages (sessions ?st) (sessionId req) = []" by simp
  from server_chat_begin_await [OF a, of tCreate tActive] hist
  show "fst (server_chat_begin tRate tCreate tActive ip (Inr req) ?st)
             = Await req (take MAX_MESSAGE_LENGTH (message req)) []"
    by auto
  assume ok: "agent (take MAX_MESSAGE_LENGTH (message req)) [] w = (response, w')
                \<and> \<not> errorSet response"
  then have call: "agent (take MAX_MESSAGE_LENGTH (message req))
           (storedMessages (sessions ?st) (sessionId req)) w = (response, w')"
    using hist by simp
  from server_chat_turn [where agent = agent and st = ?st and w = w and tCreate = tCreate
      and tActive = tActive, OF a call] ok h hist
  show "case server_chat agent tRate tCreate tActive ip (Inr req) ?st w of
                   (r, st', w'') \<Rightarrow>
                     status r = 200
                     \<and> storedMessages (sessions st') sid =
                         [\<lparr>role = User, m_content = take MAX_MESSAGE_LENGTH (message req)\<rparr>,
                          \<lparr>role = Assistant, m_content = r_content response\<rparr>]"
    by auto
next
  assume "sessions st sid = Some session \<and> \<not> now1 - lastActive session > SESSION_TIMEOUT_MS"
  then show "sessions (sessionCleanup now1 now2 st) sid = Some session"
    by (simp add: sessionCleanup_sessions)
qed

theorem idle_session_swept_then_fresh_witness:
  "sessions \<lparr>sessions = shortStore, rateLimit = Map.empty\<rparr> ''s1''
     = Some \<lparr>messages = [\<lparr>role = User, m_content = ''q''\<rparr>, \<lparr>role = Assistant, m_content = ''a''\<rparr>],
             lastActive = 0\<rparr>
   \<and> sessions (sessionCleanup 1800001 1800001 \<lparr>sessions = shortStore, rateLimit = Map.empty\<rparr>) ''s1'' = None
   \<and> fst (server_chat_begin 1800002 1800002 1800002 ''ip'' (Inr helloRequest)
            (sessionCleanup 1800001 1800001 \<lparr>sessions = shortStore, rateLimit = Map.empty\<rparr>))
       = Await helloRequest (take MAX_MESSAGE_LENGTH (message helloRequest)) []
   \<and> storedMessages (sessions (fst (snd (server_chat (runAgent literalHost inlineKnowledge okProvider None)
            1800002 1800002 1800002 ''ip'' (Inr helloRequest)
            (sessionCleanup 1800001 1800001 \<lparr>sessions = shortStore, rateLimit = Map.empty\<rparr>) [])))) ''s1''
       = [\<lparr>role = User, m_content = take MAX_MESSAGE_LENGTH (message helloRequest)\<rparr>,
          \<lparr>role = Assistant, m_content = ''ok''\<rparr>]"
proof -
  let ?st = "\<lparr>sessions = shortStore, rateLimit = Map.empty\<rparr>"
  let ?s = "\<lparr>messages = [\<lparr>role = User, m_content = ''q''\<rparr>, \<lparr>role = Assistant, m_content = ''a''\<rparr>],
             lastActive = 0\<rparr>"
  let ?ag = "runAgent literalHost inlineKnowledge okProvider None"
  let ?ok = "\<lparr>r_content = ''ok'', r_error = None\<rparr>"
  have present: "sessions ?st ''s1'' = Some ?s" by (simp add: shortStore_def)
  have idle: "1800001 - lastActive ?s > SESSION_TIMEOUT_MS" by (simp add: SESSION_TIMEOUT_MS_def)
  have rate: "checkRateLimit 1800002 ''ip'' (rateLimit (sessionCleanup 1800001 1800001 ?st))
                = (True, (rateLimit (sessionCleanup 1800001 1800001 ?st))
                           (''ip'' \<mapsto> \<lparr>count = 1, resetTime = 1860002\<rparr>))"
    by (simp add: checkRateLimit_def sessionCleanup_def)
  have fields: "sessionId helloRequest = ''s1''" "message helloRequest \<noteq> []"
    by (simp_all add: helloRequest_def)
  have noerr: "\<not> errorSet ?ok" by (simp add: errorSet_def)
  from idle_session_swept_then_fresh [where st = ?st and sid = "''s1''" and session = ?s
      and ?now1.0 = 1800001 and ?now2.0 = 1800001 and tRate = 1800002 and tCreate = 1800002
      and tActive = 1800002 and ip = "''ip''" and req = helloRequest and agent = ?ag and w = "[]"
      and response = ?ok
      and rl = "(rateLimit (sessionCleanup 1800001 1800001 ?st))(''ip'' \<mapsto> \<lparr>count = 1, resetTime = 1860002\<rparr>)"]
    present idle rate fields noerr ok_agent [of literalHost inlineKnowledge]
  have "sessions (sessionCleanup 1800001 1800001 ?st) ''s1'' = None
   \<and> fst (server_chat_begin 1800002 1800002 1800002 ''ip'' (Inr helloRequest)
            (sessionCleanup 1800001 1800001 ?st))
       = Await helloRequest (take MAX_MESSAGE_LENGTH (message helloRequest)) []
   \<and> storedMessages (sessions (fst (snd (server_chat ?ag
            1800002 1800002 1800002 ''ip'' (Inr helloRequest)
            (sessionCleanup 1800001 1800001 ?st) [])))) ''s1''
       = [\<lparr>role = User, m_content = take MAX_MESSAGE_LENGTH (message helloRequest)\<rparr>,
          \<lparr>role = Assistant, m_content = ''ok''\<rparr>]"
    by (simp add: case_prod_beta)
  with present show ?thesis by simp
qed

lemma userTurns_append: "userTurns (xs @ ys) = userTurns xs + userTurns ys"
  by (simp add: userTurns_def)

lemma userTurns_replicate:
  "userTurns (concat (replicate n [\<lparr>role = User, m_content = u\<rparr>, \<lparr>role = Assistant, m_content = a\<rparr>])) = n"
  by (induction n) (simp_all add: userTurns_def)

lemma fullSession_turns: "userTurns (messages fullSession) = MAX_MESSAGES_PER_SESSION"
  by (simp add: fullSession_def userTurns_replicate MAX_MESSAGES_PER_SESSION_def)

text \<open>
  server.ts keeps the bound: when no session holds more than the maximum of user turns,
  none does after a request, whatever the request and the agent's answer.
\<close>

lemma server_chat_keeps_bound:
  assumes "\<forall>sid. userTurns (storedMessages (sessions st) sid) \<le> MAX_MESSAGES_PER_SESSION"
  shows "\<forall>sid. userTurns (storedMessages
            (sessions (fst (snd (server_chat agent tRate tCreate tActive ip parsed st w)))) sid)
          \<le> MAX_MESSAGES_PER_SESSION"
proof -
  obtain ok rl where rate: "checkRateLimit tRate ip (rateLimit st) = (ok, rl)"
    by (cases "checkRateLimit tRate ip (rateLimit st)")
  show ?thesis
  proof (cases "ok \<and> (\<exists>req. parsed = Inr req \<and> sessionId req \<noteq> [] \<and> message req \<noteq> [])")
    case False
    then have "sessions (fst (snd (server_chat agent tRate tCreate tActive ip parsed st w)))
                 = sessions st"
      using rate by (cases ok) (auto simp: server_chat_def server_chat_begin_def split: sum.split)
    with assms show ?thesis by simp
  next
    case True
    then obtain req where req: "parsed = Inr req" "sessionId req \<noteq> []" "message req \<noteq> []"
      and r: "checkRateLimit tRate ip (rateLimit st) = (True, rl)"
      using rate by auto
    show ?thesis
    proof (cases "userTurns (storedMessages (sessions st) (sessionId req)) < MAX_MESSAGES_PER_SESSION")
      case False
      then have "userTurns (storedMessages (sessions st) (sessionId req)) \<ge> MAX_MESSAGES_PER_SESSION"
        by simp
      from server_chat_limit [where agent = agent and w = w and tCreate = tCreate
          and tActive = tActive, OF r req(2,3) this] assms req(1)
      show ?thesis by auto
    next
      case True
      obtain response w' where call: "agent (take MAX_MESSAGE_LENGTH (message req))
           (storedMessages (sessions st) (sessionId req)) w = (response, w')"
        by (cases "agent (take MAX_MESSAGE_LENGTH (message req))
           (storedMessages (sessions st) (sessionId req)) w")
      from server_chat_turn [where agent = agent and st = st and w = w and tCreate = tCreate
          and tActive = tActive, OF r req(2,3) True call]
      obtain st' where run: "server_chat agent tRate tCreate tActive ip (Inr req) st w =
            (if errorSet response
             then \<lparr>status = 500, body = ErrorBody (the (r_error response))\<rparr>
             else \<lparr>status = 200, body = ChatBody (r_content response) (sessionId req)\<rparr>,
             st', w')"
        and stored: "\<forall>sid. storedMessages (sessions st') sid =
                (if errorSet response \<or> sid \<noteq> sessionId req then storedMessages (sessions st) sid
                 else storedMessages (sessions st) sid
                      @ [\<lparr>role = User, m_content = take MAX_MESSAGE_LENGTH (message req)\<rparr>,
                         \<lparr>role = Assistant, m_content = r_content response\<rparr>])"
        by blast
      have "userTurns (storedMessages (sessions st') sid) \<le> MAX_MESSAGES_PER_SESSION" for sid
      proof (cases "errorSet response \<or> sid \<noteq> sessionId req")
        case True
        with stored assms show ?thesis by simp
      next
        case False
        with stored have "userTurns (storedMessages (sessions st') sid)
            = userTurns (storedMessages (sessions st) (sessionId req)) + 1"
          by (simp add: userTurns_def)
        with True show ?thesis by simp
      qed
      with run req(1) show ?thesis by simp
    qed
  qed
qed

text \<open>
  C4 on the code. A session that holds the maximum number of user turns gets one more
  request. The handler of server.ts answers 400, makes no call to the provider and leaves
  the session as it is. The Express route and the serverless handler have no such check:
  each calls the provider, answers 200 and appends the turn, so that the session holds
  one user turn more than the maximum.
\<close>

theorem session_limit_only_in_server:
  "userTurns (storedMessages fullStore ''s1'') = MAX_MESSAGES_PER_SESSION
   \<and> (case server_chat (runAgent literalHost inlineKnowledge okProvider None)
              1 1 2 ''ip'' (Inr helloRequest) \<lparr>sessions = fullStore, rateLimit = Map.empty\<rparr> [] of
        (r, st', log) \<Rightarrow>
          status r = 400 \<and> log = []
          \<and> storedMessages (sessions st') ''s1'' = storedMessages fullStore ''s1'')
   \<and> (case express_chat (runAgent_express literalHost inlineKnowledge okProvider)
              ''sk'' 1 2 helloRequest fullStore [] of
        (r, store', log) \<Rightarrow>
          status r = 200 \<and> length log = 1
          \<and> userTurns (storedMessages store' ''s1'') = MAX_MESSAGES_PER_SESSION + 1)
   \<and> (case handler (runAgent literalHost inlineKnowledge okProvider None)
              ''sk'' 1 2 POST (Inr helloRequest) fullStore [] of
        (r, store', log) \<Rightarrow>
          status r = 200 \<and> length log = 1
          \<and> userTurns (storedMessages store' ''s1'') = MAX_MESSAGES_PER_SESSION + 1)"
proof -
  let ?ax = "runAgent_express literalHost inlineKnowledge okProvider"
  let ?ag = "runAgent literalHost inlineKnowledge okProvider None"
  let ?st = "\<lparr>sessions = fullStore, rateLimit = Map.empty\<rparr>"
  have stored: "storedMessages fullStore ''s1'' = messages fullSession"
    by (simp add: storedMessages_def fullStore_def)
  have full: "userTurns (storedMessages fullStore ''s1'') = MAX_MESSAGES_PER_SESSION"
    by (simp add: stored fullSession_turns)
  have fields: "sessionId helloRequest \<noteq> []" "message helloRequest \<noteq> []"
    and sid: "sessionId helloRequest = ''s1''"
    by (simp_all add: helloRequest_def)
  have key: "''sk'' \<noteq> []" by simp
  have noerr: "\<not> errorSet \<lparr>r_content = ''ok'', r_error = None\<rparr>" by (simp add: errorSet_def)
  have rate: "checkRateLimit 1 ''ip'' (rateLimit ?st) = (True, [''ip'' \<mapsto> \<lparr>count = 1, resetTime = 60001\<rparr>])"
    by (simp add: checkRateLimit_def)
  have limit: "userTurns (storedMessages (sessions ?st) (sessionId helloRequest)) \<ge> MAX_MESSAGES_PER_SESSION"
    by (simp add: sid full)
  from server_chat_limit [where agent = ?ag and w = "[]" and tCreate = 1 and tActive = 2,
      OF rate fields limit]
  have server: "case server_chat ?ag 1 1 2 ''ip'' (Inr helloRequest) ?st [] of
        (r, st', log) \<Rightarrow>
          status r = 400 \<and> log = []
          \<and> storedMessages (sessions st') ''s1'' = storedMessages fullStore ''s1''"
    by auto
  from express_chat_turn [where agent = ?ax and store = fullStore and w = "[]" and tCreate = 1
      and tActive = 2, OF fields key ok_express] noerr
  have express: "case express_chat ?ax ''sk'' 1 2 helloRequest fullStore [] of
        (r, store', log) \<Rightarrow>
          status r = 200 \<and> length log = 1
          \<and> userTurns (storedMessages store' ''s1'') = MAX_MESSAGES_PER_SESSION + 1"
    by (auto simp: sid full userTurns_append) (simp add: userTurns_def)
  from handler_turn [where agent = ?ag and store = fullStore and w = "[]" and tCreate = 1
      and tActive = 2, OF fields key ok_agent] noerr
  have serverless: "case handler ?ag ''sk'' 1 2 POST (Inr helloRequest) fullStore [] of
        (r, store', log) \<Rightarrow>
          status r = 200 \<and> length log = 1
          \<and> userTurns (storedMessages store' ''s1'') = MAX_MESSAGES_PER_SESSION + 1"
    by (auto simp: sid full userTurns_append) (simp add: userTurns_def)
  show ?thesis
    by (rule conjI [OF full conjI [OF server conjI [OF express serverless]]])
qed

end
